theory Spec2Isabelle
  imports Main "HOL-Library.Multiset" "HOL-Library.Word"
begin

section \<open>Platform values: JSON text and JavaScript exceptions\<close>

text \<open>
  The program keeps its three collections in browser storage as JSON text and reads the
  metadata provider's answer as JSON text. A JavaScript value that can travel through
  \<^verbatim>\<open>JSON.stringify\<close> and \<^verbatim>\<open>JSON.parse\<close> is a \<open>json\<close>. Numbers are integers, as the
  ratings and provider identifiers of this program are; strings are lists of \<open>char\<close>
  (well-formed text). An object is the list of its members in textual order; reading a
  property takes the last member of that name, as \<^verbatim>\<open>JSON.parse\<close> keeps the last
  duplicate.
\<close>

datatype json =
    JNull
  | JBool bool
  | JNum int
  | JStr string
  | JArr "json list"
  | JObj "(string \<times> json) list"

text \<open>The result of a property read: a JSON value, or \<^verbatim>\<open>undefined\<close>.\<close>

datatype js_value = Undefined | Value json

text \<open>Everything the platform calls used by the program can throw.\<close>

datatype exn =
    SyntaxError
  | TypeError
  | DOMException
  | FetchFailed
  | URIError
  | Error string

subsection \<open>\<^verbatim>\<open>JSON.stringify\<close>\<close>

definition hex_digit :: "nat \<Rightarrow> char" where
  "hex_digit n = ''0123456789abcdef'' ! (n mod 16)"

definition dec_digit :: "nat \<Rightarrow> char" where
  "dec_digit n = ''0123456789'' ! (n mod 10)"

fun digits_of :: "nat \<Rightarrow> string" where
  "digits_of n = (if n < 10 then [dec_digit n] else digits_of (n div 10) @ [dec_digit n])"

declare digits_of.simps [simp del]

definition show_int :: "int \<Rightarrow> string" where
  "show_int i = (if i < 0 then CHR ''-'' # digits_of (nat (- i)) else digits_of (nat i))"

text \<open>
  \<^verbatim>\<open>QuoteJSONString\<close>: the quotation mark and the backslash are escaped, the control
  characters below U+0020 are written by their short escape or as \<^verbatim>\<open>\u00XX\<close>.
\<close>

definition escape_char :: "char \<Rightarrow> string" where
  "escape_char c =
     (if c = CHR 0x22 then [CHR 0x5C, CHR 0x22]
      else if c = CHR 0x5C then [CHR 0x5C, CHR 0x5C]
      else if c = CHR 0x08 then [CHR 0x5C, CHR ''b'']
      else if c = CHR 0x0C then [CHR 0x5C, CHR ''f'']
      else if c = CHR 0x0A then [CHR 0x5C, CHR ''n'']
      else if c = CHR 0x0D then [CHR 0x5C, CHR ''r'']
      else if c = CHR 0x09 then [CHR 0x5C, CHR ''t'']
      else if (of_char c :: nat) < 32
        then [CHR 0x5C, CHR ''u'', CHR ''0'', CHR ''0'',
              hex_digit (of_char c div 16), hex_digit (of_char c)]
      else [c])"

definition quote :: "string \<Rightarrow> string" where
  "quote s = CHR 0x22 # concat (map escape_char s) @ [CHR 0x22]"

fun commas :: "string list \<Rightarrow> string" where
  "commas [] = []"
| "commas [x] = x"
| "commas (x # y # ys) = x @ CHR '','' # commas (y # ys)"

fun JSON_stringify :: "json \<Rightarrow> string" where
  "JSON_stringify JNull = ''null''"
| "JSON_stringify (JBool b) = (if b then ''true'' else ''false'')"
| "JSON_stringify (JNum i) = show_int i"
| "JSON_stringify (JStr s) = quote s"
| "JSON_stringify (JArr xs) = CHR ''['' # commas (map JSON_stringify xs) @ '']''"
| "JSON_stringify (JObj kvs) =
     CHR ''{'' # commas (map (\<lambda>(k, v). quote k @ CHR '':'' # JSON_stringify v) kvs) @ ''}''"

subsection \<open>\<^verbatim>\<open>JSON.parse\<close>\<close>

definition is_ws :: "char \<Rightarrow> bool" where
  "is_ws c \<longleftrightarrow> c = CHR '' '' \<or> c = CHR 0x09 \<or> c = CHR 0x0A \<or> c = CHR 0x0D"

definition skip_ws :: "string \<Rightarrow> string" where
  "skip_ws cs = dropWhile is_ws cs"

definition is_digit :: "char \<Rightarrow> bool" where
  "is_digit c \<longleftrightarrow> (48::nat) \<le> of_char c \<and> (of_char c :: nat) \<le> 57"

definition digit_val :: "char \<Rightarrow> nat" where
  "digit_val c = of_char c - 48"

definition hex_val :: "char \<Rightarrow> nat option" where
  "hex_val c =
     (let n = (of_char c :: nat) in
      if 48 \<le> n \<and> n \<le> 57 then Some (n - 48)
      else if 97 \<le> n \<and> n \<le> 102 then Some (n - 87)
      else if 65 \<le> n \<and> n \<le> 70 then Some (n - 55)
      else None)"

definition nat_of_digits :: "string \<Rightarrow> nat" where
  "nat_of_digits ds = foldl (\<lambda>a c. 10 * a + digit_val c) 0 ds"

text \<open>
  A number literal: an optional minus sign, then \<^verbatim>\<open>0\<close> or a digit sequence without a
  leading zero. A literal that goes on with a fraction or an exponent denotes a
  floating-point value; it is outside this model and is refused. An integer literal is
  read exactly, as JavaScript reads it up to \<open>2 ^ 53\<close> in magnitude; the numbers that the
  program writes, ratings and provider identifiers, are far inside that range.
\<close>

definition parse_nat :: "string \<Rightarrow> (nat \<times> string) option" where
  "parse_nat cs =
     (case cs of
        [] \<Rightarrow> None
      | c # r \<Rightarrow>
          if c = CHR ''0'' then Some (0, r)
          else if is_digit c
            then Some (nat_of_digits (takeWhile is_digit cs), dropWhile is_digit cs)
          else None)"

definition parse_number :: "string \<Rightarrow> (int \<times> string) option" where
  "parse_number cs =
     (case (case cs of
              [] \<Rightarrow> None
            | c # r \<Rightarrow>
                if c = CHR ''-''
                  then map_option (\<lambda>(n, r'). (- int n, r')) (parse_nat r)
                else map_option (\<lambda>(n, r'). (int n, r')) (parse_nat cs)) of
        None \<Rightarrow> None
      | Some (i, r) \<Rightarrow>
          (case r of
             [] \<Rightarrow> Some (i, r)
           | d # _ \<Rightarrow>
               if d = CHR ''.'' \<or> d = CHR ''e'' \<or> d = CHR ''E'' then None else Some (i, r)))"

text \<open>
  A code point written as \<^verbatim>\<open>\uXXXX\<close>, as the bytes of its UTF-8 form.
\<close>

definition utf8 :: "nat \<Rightarrow> string" where
  "utf8 n =
     (if n < 128 then [char_of n]
      else if n < 2048 then [char_of (192 + n div 64), char_of (128 + n mod 64)]
      else [char_of (224 + n div 4096), char_of (128 + (n div 64) mod 64),
            char_of (128 + n mod 64)])"

text \<open>The characters of a string literal after its opening quotation mark.\<close>

fun parse_chars :: "string \<Rightarrow> (string \<times> string) option" where
  "parse_chars [] = None"
| "parse_chars (c # cs) =
     (if c = CHR 0x22 then Some ([], cs)
      else if c = CHR 0x5C then
        (case cs of
           [] \<Rightarrow> None
         | e # r \<Rightarrow>
             if e = CHR ''u'' then
               (case r of
                  h1 # h2 # h3 # h4 # r' \<Rightarrow>
                    (case (hex_val h1, hex_val h2, hex_val h3, hex_val h4) of
                       (Some a, Some b, Some c', Some d) \<Rightarrow>
                         map_option (\<lambda>(s, t). (utf8 (((a * 16 + b) * 16 + c') * 16 + d) @ s, t))
                           (parse_chars r')
                     | _ \<Rightarrow> None)
                | _ \<Rightarrow> None)
             else
               (case (if e = CHR 0x22 then Some (CHR 0x22)
                      else if e = CHR 0x5C then Some (CHR 0x5C)
                      else if e = CHR ''/'' then Some (CHR ''/'')
                      else if e = CHR ''b'' then Some (CHR 0x08)
                      else if e = CHR ''f'' then Some (CHR 0x0C)
                      else if e = CHR ''n'' then Some (CHR 0x0A)
                      else if e = CHR ''r'' then Some (CHR 0x0D)
                      else if e = CHR ''t'' then Some (CHR 0x09)
                      else None) of
                  None \<Rightarrow> None
                | Some x \<Rightarrow> map_option (\<lambda>(s, t). (x # s, t)) (parse_chars r)))
      else if (of_char c :: nat) < 32 then None
      else map_option (\<lambda>(s, t). (c # s, t)) (parse_chars cs))"

definition parse_string :: "string \<Rightarrow> (string \<times> string) option" where
  "parse_string cs =
     (case cs of [] \<Rightarrow> None | c # r \<Rightarrow> if c = CHR 0x22 then parse_chars r else None)"

definition literal :: "string \<Rightarrow> string \<Rightarrow> string option" where
  "literal w cs = (if take (length w) cs = w then Some (drop (length w) cs) else None)"

text \<open>
  The recursive descent over values. The first argument bounds the depth of the calls;
  \<open>JSON_parse\<close> below allows the length of the text and one more, and lemma
  \<open>JSON_parse_complete\<close> shows that no larger bound finds a parse that this one misses.
  \<open>parse_elements\<close> reads an array after \<^verbatim>\<open>[\<close> and a first look that it is not empty,
  \<open>parse_members\<close> an object after \<^verbatim>\<open>{\<close> likewise.
\<close>

fun parse_value :: "nat \<Rightarrow> string \<Rightarrow> (json \<times> string) option"
  and parse_elements :: "nat \<Rightarrow> string \<Rightarrow> (json list \<times> string) option"
  and parse_members :: "nat \<Rightarrow> string \<Rightarrow> ((string \<times> json) list \<times> string) option"
where
  "parse_value 0 cs = None"
| "parse_value (Suc n) cs =
     (case cs of
        [] \<Rightarrow> None
      | c # r \<Rightarrow>
          if c = CHR ''n'' then map_option (Pair JNull) (literal ''null'' cs)
          else if c = CHR ''t'' then map_option (Pair (JBool True)) (literal ''true'' cs)
          else if c = CHR ''f'' then map_option (Pair (JBool False)) (literal ''false'' cs)
          else if c = CHR 0x22 then map_option (\<lambda>(s, t). (JStr s, t)) (parse_string cs)
          else if c = CHR ''['' then
            (case skip_ws r of
               [] \<Rightarrow> None
             | d # r' \<Rightarrow>
                 if d = CHR '']'' then Some (JArr [], r')
                 else map_option (\<lambda>(xs, t). (JArr xs, t)) (parse_elements n (d # r')))
          else if c = CHR ''{'' then
            (case skip_ws r of
               [] \<Rightarrow> None
             | d # r' \<Rightarrow>
                 if d = CHR ''}'' then Some (JObj [], r')
                 else map_option (\<lambda>(kvs, t). (JObj kvs, t)) (parse_members n (d # r')))
          else map_option (\<lambda>(i, t). (JNum i, t)) (parse_number cs))"
| "parse_elements 0 cs = None"
| "parse_elements (Suc n) cs =
     (case parse_value n cs of
        None \<Rightarrow> None
      | Some (x, r) \<Rightarrow>
          (case skip_ws r of
             [] \<Rightarrow> None
           | d # r' \<Rightarrow>
               if d = CHR '']'' then Some ([x], r')
               else if d = CHR '','' then
                 map_option (\<lambda>(xs, t). (x # xs, t)) (parse_elements n (skip_ws r'))
               else None))"
| "parse_members 0 cs = None"
| "parse_members (Suc n) cs =
     (case parse_string cs of
        None \<Rightarrow> None
      | Some (k, r) \<Rightarrow>
          (case skip_ws r of
             [] \<Rightarrow> None
           | d # r' \<Rightarrow>
               if d \<noteq> CHR '':'' then None
               else
                 (case parse_value n (skip_ws r') of
                    None \<Rightarrow> None
                  | Some (v, r'') \<Rightarrow>
                      (case skip_ws r'' of
                         [] \<Rightarrow> None
                       | d' # r3 \<Rightarrow>
                           if d' = CHR ''}'' then Some ([(k, v)], r3)
                           else if d' = CHR '','' then
                             map_option (\<lambda>(kvs, t). ((k, v) # kvs, t))
                               (parse_members n (skip_ws r3))
                           else None))))"

text \<open>
  \<^verbatim>\<open>JSON.parse(text)\<close>: one value between optional white space, and nothing after it;
  anything else is a \<^verbatim>\<open>SyntaxError\<close>.
\<close>

definition JSON_parse :: "string \<Rightarrow> exn + json" where
  "JSON_parse text =
     (case parse_value (Suc (length text)) (skip_ws text) of
        None \<Rightarrow> Inl SyntaxError
      | Some (v, r) \<Rightarrow> if skip_ws r = [] then Inr v else Inl SyntaxError)"

section \<open>Constants\<close>

text \<open>
  The access credential ships as a placeholder that the operator replaces; the client
  compares against the placeholder, so the credential is a parameter of the client below
  and \<open>TMDB_API_KEY\<close> is the value in the repository.
\<close>

definition TMDB_API_KEY_PLACEHOLDER :: string where
  "TMDB_API_KEY_PLACEHOLDER = ''YOUR_TMDB_API_KEY_HERE''"

definition TMDB_API_KEY :: string where
  "TMDB_API_KEY = ''YOUR_TMDB_API_KEY_HERE''"

definition TMDB_API_BASE_URL :: string where
  "TMDB_API_BASE_URL = ''https://api.themoviedb.org/3''"

definition STORAGE_KEY_MOVIES :: string where
  "STORAGE_KEY_MOVIES = ''culturaLog_movies''"

definition STORAGE_KEY_BOOKS :: string where
  "STORAGE_KEY_BOOKS = ''culturaLog_books''"

definition STORAGE_KEY_EVENTS :: string where
  "STORAGE_KEY_EVENTS = ''culturaLog_events''"

section \<open>Data model\<close>

datatype ActivityType = movie | book | event

record BaseActivity =
  id' :: string
  title :: string
  review :: string
  rating :: int
  date :: string

record Movie = BaseActivity +
  releaseYear :: string
  posterPath :: "string option"
  tmdbId :: int

record Book = BaseActivity +
  author :: string
  isbn :: string

record Event = BaseActivity +
  venue :: string

text \<open>
  \<^verbatim>\<open>type Activity = Movie | Book | Event\<close>; the discriminant field \<^verbatim>\<open>type\<close> of an item is
  the constructor.
\<close>

datatype Activity = AMovie Movie | ABook Book | AEvent Event

fun Activity_type :: "Activity \<Rightarrow> ActivityType" where
  "Activity_type (AMovie m) = movie"
| "Activity_type (ABook b) = book"
| "Activity_type (AEvent e) = event"

fun Activity_id :: "Activity \<Rightarrow> string" where
  "Activity_id (AMovie m) = id' m"
| "Activity_id (ABook b) = id' b"
| "Activity_id (AEvent e) = id' e"

text \<open>The items as the JavaScript objects that \<^verbatim>\<open>JSON.stringify\<close> sees.\<close>

definition Movie_toJSON :: "Movie \<Rightarrow> json" where
  "Movie_toJSON m = JObj
     [(''title'', JStr (title m)),
      (''releaseYear'', JStr (releaseYear m)),
      (''posterPath'', (case posterPath m of None \<Rightarrow> JNull | Some p \<Rightarrow> JStr p)),
      (''tmdbId'', JNum (tmdbId m)),
      (''review'', JStr (review m)),
      (''rating'', JNum (rating m)),
      (''date'', JStr (date m)),
      (''id'', JStr (id' m)),
      (''type'', JStr ''movie'')]"

definition Book_toJSON :: "Book \<Rightarrow> json" where
  "Book_toJSON b = JObj
     [(''title'', JStr (title b)),
      (''author'', JStr (author b)),
      (''isbn'', JStr (isbn b)),
      (''review'', JStr (review b)),
      (''rating'', JNum (rating b)),
      (''date'', JStr (date b)),
      (''id'', JStr (id' b)),
      (''type'', JStr ''book'')]"

definition Event_toJSON :: "Event \<Rightarrow> json" where
  "Event_toJSON e = JObj
     [(''title'', JStr (title e)),
      (''venue'', JStr (venue e)),
      (''review'', JStr (review e)),
      (''rating'', JNum (rating e)),
      (''date'', JStr (date e)),
      (''id'', JStr (id' e)),
      (''type'', JStr ''event'')]"

fun Activity_toJSON :: "Activity \<Rightarrow> json" where
  "Activity_toJSON (AMovie m) = Movie_toJSON m"
| "Activity_toJSON (ABook b) = Book_toJSON b"
| "Activity_toJSON (AEvent e) = Event_toJSON e"

text \<open>\<^verbatim>\<open>item.id\<close> of a record that was read from JSON text.\<close>

definition JSON_id :: "json \<Rightarrow> js_value" where
  "JSON_id item =
     (case item of
        JObj kvs \<Rightarrow> (case map_of (rev kvs) ''id'' of None \<Rightarrow> Undefined | Some v \<Rightarrow> Value v)
      | _ \<Rightarrow> Undefined)"

section \<open>Storage service\<close>

text \<open>
  The browser's \<^verbatim>\<open>localStorage\<close>: the stored strings, whether the user agent grants
  access to the storage at all, and which writes it accepts (it refuses one that would
  exceed its quota). Both calls throw when they fail.
\<close>

record localStorage =
  entries :: "string \<rightharpoonup> string"
  available :: bool
  accepts :: "string \<Rightarrow> string \<Rightarrow> bool"

definition localStorage_getItem :: "localStorage \<Rightarrow> string \<Rightarrow> exn + string option" where
  "localStorage_getItem ls key = (if available ls then Inr (entries ls key) else Inl DOMException)"

definition localStorage_setItem :: "localStorage \<Rightarrow> string \<Rightarrow> string \<Rightarrow> exn + localStorage" where
  "localStorage_setItem ls key v =
     (if available ls \<and> accepts ls key v then Inr (ls\<lparr>entries := (entries ls)(key \<mapsto> v)\<rparr>)
      else Inl DOMException)"

text \<open>
  \<^verbatim>\<open>getItemsFromStorage\<close>: the \<^verbatim>\<open>try\<close> block, then the function with its \<^verbatim>\<open>catch\<close>. The
  empty string is falsy, like the absent entry. The result is whatever \<^verbatim>\<open>JSON.parse\<close>
  gives; the type \<^verbatim>\<open>T[]\<close> of the source is an unchecked assertion. The line written to
  the console in the \<^verbatim>\<open>catch\<close> clause is not part of the model.
\<close>

definition getItemsFromStorage_try :: "string \<Rightarrow> localStorage \<Rightarrow> exn + json" where
  "getItemsFromStorage_try key ls =
     (case localStorage_getItem ls key of
        Inl e \<Rightarrow> Inl e
      | Inr itemsJson \<Rightarrow>
          (case itemsJson of
             None \<Rightarrow> Inr (JArr [])
           | Some text \<Rightarrow> if text \<noteq> [] then JSON_parse text else Inr (JArr [])))"

definition getItemsFromStorage :: "string \<Rightarrow> localStorage \<Rightarrow> exn + json" where
  "getItemsFromStorage key ls =
     (case getItemsFromStorage_try key ls of
        Inl error \<Rightarrow> Inr (JArr [])
      | Inr items \<Rightarrow> Inr items)"

text \<open>
  \<^verbatim>\<open>saveItemsToStorage\<close> returns nothing and catches every exception of its body: a
  refused write leaves the storage as it was.
\<close>

definition saveItemsToStorage :: "string \<Rightarrow> json \<Rightarrow> localStorage \<Rightarrow> localStorage" where
  "saveItemsToStorage key items ls =
     (case localStorage_setItem ls key (JSON_stringify items) of
        Inl error \<Rightarrow> ls
      | Inr ls' \<Rightarrow> ls')"

definition storageService_getMovies :: "localStorage \<Rightarrow> exn + json" where
  "storageService_getMovies ls = getItemsFromStorage STORAGE_KEY_MOVIES ls"

definition storageService_saveMovies :: "Movie list \<Rightarrow> localStorage \<Rightarrow> localStorage" where
  "storageService_saveMovies ms ls =
     saveItemsToStorage STORAGE_KEY_MOVIES (JArr (map Movie_toJSON ms)) ls"

definition storageService_getBooks :: "localStorage \<Rightarrow> exn + json" where
  "storageService_getBooks ls = getItemsFromStorage STORAGE_KEY_BOOKS ls"

definition storageService_saveBooks :: "Book list \<Rightarrow> localStorage \<Rightarrow> localStorage" where
  "storageService_saveBooks bs ls =
     saveItemsToStorage STORAGE_KEY_BOOKS (JArr (map Book_toJSON bs)) ls"

definition storageService_getEvents :: "localStorage \<Rightarrow> exn + json" where
  "storageService_getEvents ls = getItemsFromStorage STORAGE_KEY_EVENTS ls"

definition storageService_saveEvents :: "Event list \<Rightarrow> localStorage \<Rightarrow> localStorage" where
  "storageService_saveEvents es ls =
     saveItemsToStorage STORAGE_KEY_EVENTS (JArr (map Event_toJSON es)) ls"

text \<open>The key under which the service keeps the collection of a category.\<close>

fun storage_key :: "ActivityType \<Rightarrow> string" where
  "storage_key movie = STORAGE_KEY_MOVIES"
| "storage_key book = STORAGE_KEY_BOOKS"
| "storage_key event = STORAGE_KEY_EVENTS"

section \<open>Metadata client\<close>

record Response =
  status :: nat
  body :: string

definition ok :: "Response \<Rightarrow> bool" where
  "ok r \<longleftrightarrow> 200 \<le> status r \<and> status r \<le> 299"

text \<open>
  The query is a JavaScript string: a sequence of 16-bit code units, in which a surrogate
  may stand alone. \<^verbatim>\<open>encodeURIComponent\<close> walks the code units. An unreserved one is kept.
  Otherwise the code point that starts there is read, a pair of surrogates giving one code
  point, and each octet of its UTF-8 form is written as \<^verbatim>\<open>%XX\<close>; a trailing surrogate, and a
  leading surrogate that no trailing one follows, throw \<^verbatim>\<open>URIError\<close>. The result is ASCII
  text, a \<open>string\<close>.
\<close>

definition uri_unreserved :: "16 word \<Rightarrow> bool" where
  "uri_unreserved c \<longleftrightarrow>
     (let n = unat c in
      (65 \<le> n \<and> n \<le> 90) \<or> (97 \<le> n \<and> n \<le> 122) \<or> (48 \<le> n \<and> n \<le> 57)
      \<or> n \<in> {0x2D, 0x5F, 0x2E, 0x21, 0x7E, 0x2A, 0x27, 0x28, 0x29})"

definition leading_surrogate :: "16 word \<Rightarrow> bool" where
  "leading_surrogate c \<longleftrightarrow> 0xD800 \<le> unat c \<and> unat c \<le> 0xDBFF"

definition trailing_surrogate :: "16 word \<Rightarrow> bool" where
  "trailing_surrogate c \<longleftrightarrow> 0xDC00 \<le> unat c \<and> unat c \<le> 0xDFFF"

definition surrogate_pair_code_point :: "16 word \<Rightarrow> 16 word \<Rightarrow> nat" where
  "surrogate_pair_code_point lead trail =
     (unat lead - 0xD800) * 0x400 + (unat trail - 0xDC00) + 0x10000"

definition utf8_octets :: "nat \<Rightarrow> nat list" where
  "utf8_octets cp =
     (if cp < 0x80 then [cp]
      else if cp < 0x800 then [0xC0 + cp div 0x40, 0x80 + cp mod 0x40]
      else if cp < 0x10000 then
        [0xE0 + cp div 0x1000, 0x80 + cp div 0x40 mod 0x40, 0x80 + cp mod 0x40]
      else
        [0xF0 + cp div 0x40000, 0x80 + cp div 0x1000 mod 0x40, 0x80 + cp div 0x40 mod 0x40,
         0x80 + cp mod 0x40])"

definition uri_hex :: "nat \<Rightarrow> char" where
  "uri_hex n = ''0123456789ABCDEF'' ! (n mod 16)"

definition uri_escape :: "nat \<Rightarrow> string" where
  "uri_escape cp =
     concat (map (\<lambda>octet. [CHR ''%'', uri_hex (octet div 16), uri_hex octet]) (utf8_octets cp))"

definition followed_by :: "string \<Rightarrow> exn + string \<Rightarrow> exn + string" where
  "followed_by s rest = (case rest of Inl e \<Rightarrow> Inl e | Inr t \<Rightarrow> Inr (s @ t))"

fun encodeURIComponent :: "16 word list \<Rightarrow> exn + string" where
  "encodeURIComponent [] = Inr []"
| "encodeURIComponent (c # cs) =
     (if uri_unreserved c then followed_by [char_of (unat c)] (encodeURIComponent cs)
      else if trailing_surrogate c then Inl URIError
      else if leading_surrogate c then
        (case cs of
           [] \<Rightarrow> Inl URIError
         | d # ds \<Rightarrow>
             if trailing_surrogate d
             then followed_by (uri_escape (surrogate_pair_code_point c d)) (encodeURIComponent ds)
             else Inl URIError)
      else followed_by (uri_escape (unat c)) (encodeURIComponent cs))"

text \<open>
  \<^verbatim>\<open>data.results\<close>: reading a property of \<^verbatim>\<open>null\<close> throws; an object gives its member or
  \<^verbatim>\<open>undefined\<close>; no other JSON value has a property of that name.
\<close>

definition get_results :: "json \<Rightarrow> exn + js_value" where
  "get_results data =
     (case data of
        JNull \<Rightarrow> Inl TypeError
      | JObj kvs \<Rightarrow>
          Inr (case map_of (rev kvs) ''results'' of None \<Rightarrow> Undefined | Some v \<Rightarrow> Value v)
      | _ \<Rightarrow> Inr Undefined)"

text \<open>The request URL, from the key and the encoded query.\<close>

definition search_url :: "string \<Rightarrow> string \<Rightarrow> string" where
  "search_url apiKey encoded =
     TMDB_API_BASE_URL @ ''/search/movie?api_key='' @ apiKey @ ''&query='' @ encoded"

text \<open>
  The network: how it answers a request URL, with a rejection or a response, and the
  requests sent so far. \<^verbatim>\<open>fetch\<close> sends a request: it is the one operation that adds to the
  requests.
\<close>

record network =
  respond :: "string \<Rightarrow> exn + Response"
  requests :: "string list"

definition fetch :: "string \<Rightarrow> network \<Rightarrow> (exn + Response) \<times> network" where
  "fetch url net = (respond net url, net\<lparr>requests := requests net @ [url]\<rparr>)"

text \<open>
  \<^verbatim>\<open>tmdbService.searchMovies\<close>. The result is the outcome of the returned promise
  (\<open>Inl\<close>: rejected) and the network after the call. The body of the \<^verbatim>\<open>try\<close> block builds
  the URL, which throws when the query cannot be encoded, before it calls \<^verbatim>\<open>fetch\<close>;
  \<^verbatim>\<open>response.json()\<close> reads the body that the response carries and parses it. The line
  written to the console in the \<^verbatim>\<open>catch\<close> clause is not part of the model.
\<close>

definition searchMovies_try ::
  "string \<Rightarrow> 16 word list \<Rightarrow> network \<Rightarrow> (exn + js_value) \<times> network" where
  "searchMovies_try apiKey query net =
     (case encodeURIComponent query of
        Inl e \<Rightarrow> (Inl e, net)
      | Inr encoded \<Rightarrow>
          (case fetch (search_url apiKey encoded) net of
             (Inl e, net') \<Rightarrow> (Inl e, net')
           | (Inr response, net') \<Rightarrow>
               (if \<not> ok response then Inl (Error ''Failed to fetch from TMDB API'')
                else
                  (case JSON_parse (body response) of
                     Inl e \<Rightarrow> Inl e
                   | Inr data \<Rightarrow> get_results data),
                net')))"

definition searchMovies ::
  "string \<Rightarrow> 16 word list \<Rightarrow> network \<Rightarrow> (exn + js_value) \<times> network" where
  "searchMovies apiKey query net =
     (if query = [] \<or> apiKey = TMDB_API_KEY_PLACEHOLDER then (Inr (Value (JArr [])), net)
      else
        (case searchMovies_try apiKey query net of
           (Inl error, net') \<Rightarrow> (Inr (Value (JArr [])), net')
         | (Inr results, net') \<Rightarrow> (Inr results, net')))"

section \<open>View and edit state controller\<close>

text \<open>
  The state of the \<^verbatim>\<open>App\<close> component, and the browser storage its handlers write to.
  A handler is a function from the state it is called in to the state it leaves. The
  effect that fills the three collections when the component mounts reads them with the
  \<^verbatim>\<open>get\<close> functions of the storage service above.
\<close>

record App =
  movies :: "Movie list"
  books :: "Book list"
  events :: "Event list"
  currentView :: ActivityType
  isModalOpen :: bool
  editingItem :: "Activity option"
  storage :: localStorage

definition handleOpenModal :: "Activity option \<Rightarrow> App \<Rightarrow> App" where
  "handleOpenModal itemToEdit s = s\<lparr>editingItem := itemToEdit, isModalOpen := True\<rparr>"

definition handleCloseModal :: "App \<Rightarrow> App" where
  "handleCloseModal s = s\<lparr>isModalOpen := False, editingItem := None\<rparr>"

definition handleSaveMovie :: "Movie \<Rightarrow> App \<Rightarrow> App" where
  "handleSaveMovie m s =
     (let newMovies =
            (if editingItem s \<noteq> None
             then map (\<lambda>x. if id' x = id' m then m else x) (movies s)
             else movies s @ [m])
      in handleCloseModal
           (s\<lparr>movies := newMovies,
              storage := storageService_saveMovies newMovies (storage s)\<rparr>))"

definition handleSaveBook :: "Book \<Rightarrow> App \<Rightarrow> App" where
  "handleSaveBook b s =
     (let newBooks =
            (if editingItem s \<noteq> None
             then map (\<lambda>x. if id' x = id' b then b else x) (books s)
             else books s @ [b])
      in handleCloseModal
           (s\<lparr>books := newBooks,
              storage := storageService_saveBooks newBooks (storage s)\<rparr>))"

definition handleSaveEvent :: "Event \<Rightarrow> App \<Rightarrow> App" where
  "handleSaveEvent e s =
     (let newEvents =
            (if editingItem s \<noteq> None
             then map (\<lambda>x. if id' x = id' e then e else x) (events s)
             else events s @ [e])
      in handleCloseModal
           (s\<lparr>events := newEvents,
              storage := storageService_saveEvents newEvents (storage s)\<rparr>))"

text \<open>
  \<^verbatim>\<open>handleDelete\<close>; the first argument is the answer of \<^verbatim>\<open>window.confirm\<close>.
\<close>

definition handleDelete :: "bool \<Rightarrow> string \<Rightarrow> ActivityType \<Rightarrow> App \<Rightarrow> App" where
  "handleDelete confirmed ident ty s =
     (if confirmed then
        (case ty of
           movie \<Rightarrow>
             (let updatedMovies = filter (\<lambda>m. id' m \<noteq> ident) (movies s)
              in s\<lparr>movies := updatedMovies,
                   storage := storageService_saveMovies updatedMovies (storage s)\<rparr>)
         | book \<Rightarrow>
             (let updatedBooks = filter (\<lambda>b. id' b \<noteq> ident) (books s)
              in s\<lparr>books := updatedBooks,
                   storage := storageService_saveBooks updatedBooks (storage s)\<rparr>)
         | event \<Rightarrow>
             (let updatedEvents = filter (\<lambda>e. id' e \<noteq> ident) (events s)
              in s\<lparr>events := updatedEvents,
                   storage := storageService_saveEvents updatedEvents (storage s)\<rparr>))
      else s)"

subsection \<open>The forms\<close>

text \<open>
  \<^verbatim>\<open>crypto.randomUUID()\<close>: the 122 random bits drawn are the argument; the result is the
  36-character text of a version 4 identifier.
\<close>

fun hex_digits :: "nat \<Rightarrow> nat \<Rightarrow> string" where
  "hex_digits 0 n = []"
| "hex_digits (Suc k) n = hex_digits k (n div 16) @ [hex_digit n]"

definition crypto_randomUUID :: "nat \<Rightarrow> string" where
  "crypto_randomUUID r =
     hex_digits 8 (r div 16 ^ 22) @ ''-'' @ hex_digits 4 (r div 16 ^ 18) @ ''-4''
       @ hex_digits 3 (r div 16 ^ 15) @ ''-'' @ [hex_digit (8 + r div 2 ^ 120 mod 4)]
       @ hex_digits 3 (r div 16 ^ 12) @ ''-'' @ hex_digits 12 r"

text \<open>
  \<^verbatim>\<open>handleSubmit\<close> of the three forms. \<open>formData\<close> is the form's field state; its
  \<^verbatim>\<open>id\<close> is overwritten. \<^verbatim>\<open>itemToEdit?.id || crypto.randomUUID()\<close>: an absent item and an
  empty identifier are both falsy. \<open>r\<close> is what the random source yields if asked.
\<close>

definition MovieForm_handleSubmit :: "Movie option \<Rightarrow> Movie \<Rightarrow> nat \<Rightarrow> Movie" where
  "MovieForm_handleSubmit itemToEdit formData r =
     formData\<lparr>id' := (case itemToEdit of
                         Some item \<Rightarrow> if id' item \<noteq> [] then id' item else crypto_randomUUID r
                       | None \<Rightarrow> crypto_randomUUID r)\<rparr>"

definition BookForm_handleSubmit :: "Book option \<Rightarrow> Book \<Rightarrow> nat \<Rightarrow> Book" where
  "BookForm_handleSubmit itemToEdit formData r =
     formData\<lparr>id' := (case itemToEdit of
                         Some item \<Rightarrow> if id' item \<noteq> [] then id' item else crypto_randomUUID r
                       | None \<Rightarrow> crypto_randomUUID r)\<rparr>"

definition EventForm_handleSubmit :: "Event option \<Rightarrow> Event \<Rightarrow> nat \<Rightarrow> Event" where
  "EventForm_handleSubmit itemToEdit formData r =
     formData\<lparr>id' := (case itemToEdit of
                         Some item \<Rightarrow> if id' item \<noteq> [] then id' item else crypto_randomUUID r
                       | None \<Rightarrow> crypto_randomUUID r)\<rparr>"

text \<open>
  What \<^verbatim>\<open>getModalContent\<close> renders: the form of one category with its \<^verbatim>\<open>itemToEdit\<close>
  property (\<^verbatim>\<open>onSave\<close> is that category's save handler). The cast \<^verbatim>\<open>itemToEdit as Movie\<close>
  is applied where the view is the item's own type. The \<^verbatim>\<open>default\<close> branch of the
  \<^verbatim>\<open>switch\<close> has no view left to apply to.
\<close>

datatype form_element =
    MovieForm_element "Movie option"
  | BookForm_element "Book option"
  | EventForm_element "Event option"

definition as_Movie :: "Activity option \<Rightarrow> Movie option" where
  "as_Movie a = (case a of Some (AMovie m) \<Rightarrow> Some m | _ \<Rightarrow> None)"

definition as_Book :: "Activity option \<Rightarrow> Book option" where
  "as_Book a = (case a of Some (ABook b) \<Rightarrow> Some b | _ \<Rightarrow> None)"

definition as_Event :: "Activity option \<Rightarrow> Event option" where
  "as_Event a = (case a of Some (AEvent e) \<Rightarrow> Some e | _ \<Rightarrow> None)"

definition getModalContent :: "App \<Rightarrow> string \<times> form_element" where
  "getModalContent s =
     (let itemToEdit = editingItem s;
          view = (case itemToEdit of Some item \<Rightarrow> Activity_type item | None \<Rightarrow> currentView s)
      in case view of
           movie \<Rightarrow>
             (if itemToEdit \<noteq> None then ''Edit Movie Log'' else ''Log New Movie'',
              MovieForm_element (as_Movie itemToEdit))
         | book \<Rightarrow>
             (if itemToEdit \<noteq> None then ''Edit Book Log'' else ''Log New Book'',
              BookForm_element (as_Book itemToEdit))
         | event \<Rightarrow>
             (if itemToEdit \<noteq> None then ''Edit Event Log'' else ''Log New Event'',
              EventForm_element (as_Event itemToEdit)))"

text \<open>
  A mounted form: its \<^verbatim>\<open>itemToEdit\<close> property and its field state, which the user's
  typing sets. Submitting it builds the item and hands it to \<^verbatim>\<open>onSave\<close>.
\<close>

datatype form =
    MovieForm "Movie option" Movie
  | BookForm "Book option" Book
  | EventForm "Event option" Event

fun element_of :: "form \<Rightarrow> form_element" where
  "element_of (MovieForm itemToEdit formData) = MovieForm_element itemToEdit"
| "element_of (BookForm itemToEdit formData) = BookForm_element itemToEdit"
| "element_of (EventForm itemToEdit formData) = EventForm_element itemToEdit"

fun finalData :: "form \<Rightarrow> nat \<Rightarrow> Activity" where
  "finalData (MovieForm itemToEdit formData) r =
     AMovie (MovieForm_handleSubmit itemToEdit formData r)"
| "finalData (BookForm itemToEdit formData) r =
     ABook (BookForm_handleSubmit itemToEdit formData r)"
| "finalData (EventForm itemToEdit formData) r =
     AEvent (EventForm_handleSubmit itemToEdit formData r)"

fun onSave :: "Activity \<Rightarrow> App \<Rightarrow> App" where
  "onSave (AMovie m) s = handleSaveMovie m s"
| "onSave (ABook b) s = handleSaveBook b s"
| "onSave (AEvent e) s = handleSaveEvent e s"

definition handleSubmit :: "form \<Rightarrow> nat \<Rightarrow> App \<Rightarrow> App" where
  "handleSubmit f r s = onSave (finalData f r) s"

text \<open>
  The versions of one item. It is made, in the category on display, by submitting a form
  that was rendered with no item to edit, the random source yielding \<open>r\<close>; each later
  version is made by submitting a form that was rendered for editing the version before.
\<close>

inductive version :: "nat \<Rightarrow> ActivityType \<Rightarrow> Activity \<Rightarrow> bool" where
  created:
    "editingItem s = None \<Longrightarrow> element_of f = snd (getModalContent s) \<Longrightarrow>
     version r (currentView s) (finalData f r)"
| edited:
    "version r ty a \<Longrightarrow> editingItem s = Some a \<Longrightarrow>
     element_of f = snd (getModalContent s) \<Longrightarrow> version r ty (finalData f r')"

subsection \<open>List for display\<close>

text \<open>
  \<^verbatim>\<open>new Date(text).getTime()\<close> is a parameter \<open>getTime\<close> of the comparison: the
  milliseconds of the date, or \<open>None\<close> for \<^verbatim>\<open>NaN\<close> when the text is no date. A
  difference with \<^verbatim>\<open>NaN\<close> is \<^verbatim>\<open>NaN\<close>; the milliseconds of two dates are integers
  that the number type holds exactly, and so is their difference.
\<close>

definition sortFn ::
  "(string \<Rightarrow> int option) \<Rightarrow> 'a BaseActivity_scheme \<Rightarrow> 'a BaseActivity_scheme \<Rightarrow> int option" where
  "sortFn getTime a b =
     (case (getTime (date b), getTime (date a)) of
        (Some tb, Some ta) \<Rightarrow> Some (tb - ta)
      | _ \<Rightarrow> None)"

text \<open>
  \<^verbatim>\<open>Array.prototype.sort\<close> with a comparison function is a stable sort; a comparison
  that yields \<^verbatim>\<open>NaN\<close> counts as \<open>0\<close>. It is modelled by insertion from the right end,
  an item going before the first one it does not compare greater than; where the
  comparison orders the items, every stable sort gives this list.
\<close>

definition comes_first :: "('a \<Rightarrow> 'a \<Rightarrow> int option) \<Rightarrow> 'a \<Rightarrow> 'a \<Rightarrow> bool" where
  "comes_first cmp x y \<longleftrightarrow> (case cmp x y of None \<Rightarrow> True | Some v \<Rightarrow> v \<le> 0)"

fun insert_by :: "('a \<Rightarrow> 'a \<Rightarrow> int option) \<Rightarrow> 'a \<Rightarrow> 'a list \<Rightarrow> 'a list" where
  "insert_by cmp x [] = [x]"
| "insert_by cmp x (y # ys) =
     (if comes_first cmp x y then x # y # ys else y # insert_by cmp x ys)"

definition Array_sort :: "('a \<Rightarrow> 'a \<Rightarrow> int option) \<Rightarrow> 'a list \<Rightarrow> 'a list" where
  "Array_sort cmp xs = foldr (insert_by cmp) xs []"

definition sortedItems :: "(string \<Rightarrow> int option) \<Rightarrow> App \<Rightarrow> Activity list" where
  "sortedItems getTime s =
     (case currentView s of
        movie \<Rightarrow> map AMovie (Array_sort (sortFn getTime) (movies s))
      | book \<Rightarrow> map ABook (Array_sort (sortFn getTime) (books s))
      | event \<Rightarrow> map AEvent (Array_sort (sortFn getTime) (events s)))"

text \<open>The category's collection as tagged items, and an item's date.\<close>

definition collection :: "ActivityType \<Rightarrow> App \<Rightarrow> Activity list" where
  "collection ty s =
     (case ty of
        movie \<Rightarrow> map AMovie (movies s)
      | book \<Rightarrow> map ABook (books s)
      | event \<Rightarrow> map AEvent (events s))"

fun Activity_date :: "Activity \<Rightarrow> string" where
  "Activity_date (AMovie m) = date m"
| "Activity_date (ABook b) = date b"
| "Activity_date (AEvent e) = date e"

text \<open>
  The date-only ISO 8601 form \<^verbatim>\<open>YYYY-MM-DD\<close>, which the date inputs of the forms
  produce, read as midnight UTC: an instance of \<open>getTime\<close>.
\<close>

definition leap_year :: "int \<Rightarrow> bool" where
  "leap_year y \<longleftrightarrow> (y mod 4 = 0 \<and> y mod 100 \<noteq> 0) \<or> y mod 400 = 0"

definition days_in_month :: "int \<Rightarrow> int \<Rightarrow> int" where
  "days_in_month y m =
     (if m = 2 then (if leap_year y then 29 else 28)
      else if m = 4 \<or> m = 6 \<or> m = 9 \<or> m = 11 then 30 else 31)"

definition days_from_civil :: "int \<Rightarrow> int \<Rightarrow> int \<Rightarrow> int" where
  "days_from_civil y m d =
     (let y' = (if m \<le> 2 then y - 1 else y);
          era = y' div 400;
          yoe = y' - era * 400;
          doy = (153 * (if m > 2 then m - 3 else m + 9) + 2) div 5 + d - 1;
          doe = yoe * 365 + yoe div 4 - yoe div 100 + doy
      in era * 146097 + doe - 719468)"

definition Date_getTime :: "string \<Rightarrow> int option" where
  "Date_getTime text =
     (case text of
        [y1, y2, y3, y4, s1, m1, m2, s2, d1, d2] \<Rightarrow>
          if s1 = CHR ''-'' \<and> s2 = CHR ''-'' \<and> list_all is_digit [y1, y2, y3, y4, m1, m2, d1, d2]
          then
            (let y = int (nat_of_digits [y1, y2, y3, y4]);
                 m = int (nat_of_digits [m1, m2]);
                 d = int (nat_of_digits [d1, d2])
             in if 1 \<le> m \<and> m \<le> 12 \<and> 1 \<le> d \<and> d \<le> days_in_month y m
                then Some (days_from_civil y m d * 86400000)
                else None)
          else None
      | _ \<Rightarrow> None)"

section \<open>Debounced search of the movie form\<close>

text \<open>
  The part of the \<^verbatim>\<open>MovieForm\<close> state that the search uses: the query text, the value
  that \<^verbatim>\<open>useDebounce(searchQuery, 500)\<close> holds, the pending timeout of its effect (the
  time it is due and the value its callback sets), the clock in milliseconds, and the
  queries handed to \<^verbatim>\<open>tmdbService.searchMovies\<close> so far.
\<close>

record MovieForm_search =
  searchQuery :: string
  debouncedValue :: string
  handler :: "(nat \<times> string) option"
  clock :: nat
  searched :: "string list"

text \<open>
  The first render at time \<open>t\<close>: both values are the empty text, the effect of
  \<^verbatim>\<open>useDebounce\<close> starts its timeout, and the search effect finds an empty query.
\<close>

definition mount :: "nat \<Rightarrow> MovieForm_search" where
  "mount t = \<lparr>searchQuery = [], debouncedValue = [], handler = Some (t + 500, []),
              clock = t, searched = []\<rparr>"

text \<open>The effect on \<^verbatim>\<open>[debouncedSearchQuery]\<close>: it searches for a query that is not empty.\<close>

definition search_effect :: "MovieForm_search \<Rightarrow> MovieForm_search" where
  "search_effect f =
     (if debouncedValue f \<noteq> [] then f\<lparr>searched := searched f @ [debouncedValue f]\<rparr> else f)"

text \<open>
  The timeout's callback \<^verbatim>\<open>setDebouncedValue(value)\<close>: setting the value a state already
  has renders nothing and runs no effect; a new value renders the form again, and the
  search effect runs because its dependency changed. The effect of \<^verbatim>\<open>useDebounce\<close> does
  not run again, \<^verbatim>\<open>[value, delay]\<close> being as before.
\<close>

definition setDebouncedValue :: "string \<Rightarrow> MovieForm_search \<Rightarrow> MovieForm_search" where
  "setDebouncedValue v f =
     (if v = debouncedValue f then f else search_effect (f\<lparr>debouncedValue := v\<rparr>))"

text \<open>Time passes until \<open>t\<close>; a timeout that is due by then fires.\<close>

definition advance :: "nat \<Rightarrow> MovieForm_search \<Rightarrow> MovieForm_search" where
  "advance t f =
     (case handler f of
        None \<Rightarrow> f\<lparr>clock := t\<rparr>
      | Some (due, v) \<Rightarrow>
          if due \<le> t then (setDebouncedValue v f)\<lparr>handler := None, clock := t\<rparr>
          else f\<lparr>clock := t\<rparr>)"

text \<open>
  The input's \<^verbatim>\<open>onChange\<close>, \<^verbatim>\<open>setSearchQuery(e.target.value)\<close>: a new text renders the
  form again, the effect of \<^verbatim>\<open>useDebounce\<close> is cleaned up (\<^verbatim>\<open>clearTimeout(handler)\<close>) and
  runs again (\<^verbatim>\<open>setTimeout(..., delay)\<close>).
\<close>

definition setSearchQuery :: "string \<Rightarrow> MovieForm_search \<Rightarrow> MovieForm_search" where
  "setSearchQuery q f =
     (if q = searchQuery f then f
      else f\<lparr>searchQuery := q, handler := Some (clock f + 500, q)\<rparr>)"

text \<open>The user changes the text to \<open>q\<close> at time \<open>t\<close>; a sequence of such changes.\<close>

definition change :: "nat \<times> string \<Rightarrow> MovieForm_search \<Rightarrow> MovieForm_search" where
  "change c f = setSearchQuery (snd c) (advance (fst c) f)"

definition type_in :: "(nat \<times> string) list \<Rightarrow> MovieForm_search \<Rightarrow> MovieForm_search" where
  "type_in cs f = foldl (\<lambda>g c. change c g) f cs"

text \<open>
  Changes that follow the one at time \<open>t\<close> to text \<open>q\<close> rapidly: each comes less than
  the delay after the one before it and changes the text.
\<close>

fun rapid :: "nat \<Rightarrow> string \<Rightarrow> (nat \<times> string) list \<Rightarrow> bool" where
  "rapid t q [] = True"
| "rapid t q (c # cs) = (t \<le> fst c \<and> fst c < t + 500 \<and> snd c \<noteq> q \<and> rapid (fst c) (snd c) cs)"

text \<open>A form at rest: the debounced value has caught up with the query.\<close>

definition settled :: "MovieForm_search \<Rightarrow> bool" where
  "settled f \<longleftrightarrow>
     debouncedValue f = searchQuery f \<and>
     (case handler f of None \<Rightarrow> True | Some (due, v) \<Rightarrow> v = searchQuery f)"

section \<open>Auxiliary notions of the proofs\<close>

text \<open>What may follow a value in a JSON text, and what a value may start with.\<close>

definition delim :: "string \<Rightarrow> bool" where
  "delim r \<longleftrightarrow>
     (case r of [] \<Rightarrow> True | c # _ \<Rightarrow> c = CHR '','' \<or> c = CHR '']'' \<or> c = CHR ''}'')"

definition value_start :: "char \<Rightarrow> bool" where
  "value_start c \<longleftrightarrow> c = CHR ''n'' \<or> c = CHR ''t'' \<or> c = CHR ''f'' \<or> c = CHR 0x22
     \<or> c = CHR ''['' \<or> c = CHR ''{'' \<or> c = CHR ''-'' \<or> is_digit c"

text \<open>
  The order of two items by their dates under \<open>getTime\<close>: the first is no earlier than
  the second, and the first is later than the second.
\<close>

definition not_earlier :: "(string \<Rightarrow> int option) \<Rightarrow> Activity \<Rightarrow> Activity \<Rightarrow> bool" where
  "not_earlier getTime a b \<longleftrightarrow>
     (case (getTime (Activity_date a), getTime (Activity_date b)) of
        (Some ta, Some tb) \<Rightarrow> tb \<le> ta
      | _ \<Rightarrow> False)"

definition later :: "(string \<Rightarrow> int option) \<Rightarrow> Activity \<Rightarrow> Activity \<Rightarrow> bool" where
  "later getTime a b \<longleftrightarrow>
     (case (getTime (Activity_date a), getTime (Activity_date b)) of
        (Some ta, Some tb) \<Rightarrow> tb < ta
      | _ \<Rightarrow> False)"

abbreviation member_text :: "string \<times> json \<Rightarrow> string" where
  "member_text \<equiv> (\<lambda>(k, v). quote k @ CHR '':'' # JSON_stringify v)"

section \<open>Example data\<close>

text \<open>
  The movie of the scenario in the specification, a later edit of it, a book and an
  event; a storage that grants access and accepts every write; the same storage holding
  an object where the movie collection should be; and the controller with that movie,
  book and event, nothing open. For the search: the query \<^verbatim>\<open>dune\<close> and a query that is one
  leading surrogate; a network on which every request fails in transport, one that
  answers every request with status 404, and one that answers with an empty object, none
  of which has sent a request yet.
\<close>

definition dune :: Movie where
  "dune = \<lparr>id' = ''7f9c'', title = ''Dune'', review = ''Spice'', rating = 4,
           date = ''2024-03-01'', releaseYear = ''2021'', posterPath = None, tmdbId = 0\<rparr>"

definition dune_edited :: Movie where
  "dune_edited = dune\<lparr>rating := 5\<rparr>"

definition alien :: Movie where
  "alien = \<lparr>id' = ''a11e'', title = ''Alien'', review = ''Cold'', rating = 5,
            date = ''2024-06-15'', releaseYear = ''1979'', posterPath = Some ''/alien.jpg'',
            tmdbId = 348\<rparr>"

definition emma :: Book where
  "emma = \<lparr>id' = ''b00c'', title = ''Emma'', review = ''Witty'', rating = 5,
           date = ''2023-11-20'', author = ''Jane Austen'', isbn = []\<rparr>"

definition recital :: Event where
  "recital = \<lparr>id' = ''e7e7'', title = ''Recital'', review = ''Loud'', rating = 3,
              date = ''2024-01-05'', venue = ''Town Hall''\<rparr>"

definition open_storage :: localStorage where
  "open_storage = \<lparr>entries = Map.empty, available = True, accepts = (\<lambda>key v. True)\<rparr>"

definition malformed_storage :: localStorage where
  "malformed_storage = open_storage\<lparr>entries := [STORAGE_KEY_MOVIES \<mapsto> ''{}'']\<rparr>"

definition example_app :: App where
  "example_app = \<lparr>movies = [dune], books = [emma], events = [recital], currentView = movie,
                  isModalOpen = False, editingItem = None, storage = open_storage\<rparr>"

definition dune_query :: "16 word list" where
  "dune_query = [0x64, 0x75, 0x6E, 0x65]"

definition lone_surrogate :: "16 word list" where
  "lone_surrogate = [0xD800]"

definition offline :: network where
  "offline = \<lparr>respond = (\<lambda>url. Inl FetchFailed), requests = []\<rparr>"

definition not_found :: network where
  "not_found = \<lparr>respond = (\<lambda>url. Inr \<lparr>status = 404, body = []\<rparr>), requests = []\<rparr>"

definition empty_object :: network where
  "empty_object = \<lparr>respond = (\<lambda>url. Inr \<lparr>status = 200, body = ''{}''\<rparr>), requests = []\<rparr>"

section \<open>\<^verbatim>\<open>JSON.parse\<close> reads back what \<^verbatim>\<open>JSON.stringify\<close> wrote\<close>

subsection \<open>Numbers\<close>

lemma lt10_cases:
  "k < (10::nat) \<Longrightarrow>
     k = 0 \<or> k = 1 \<or> k = 2 \<or> k = 3 \<or> k = 4 \<or> k = 5 \<or> k = 6 \<or> k = 7 \<or> k = 8 \<or> k = 9"
  by arith

lemma lt16_cases:
  "k < (16::nat) \<Longrightarrow>
     k = 0 \<or> k = 1 \<or> k = 2 \<or> k = 3 \<or> k = 4 \<or> k = 5 \<or> k = 6 \<or> k = 7 \<or> k = 8 \<or> k = 9
     \<or> k = 10 \<or> k = 11 \<or> k = 12 \<or> k = 13 \<or> k = 14 \<or> k = 15"
  by arith

lemma of_char_dec_digit: "(of_char (dec_digit n) :: nat) = 48 + n mod 10"
proof -
  have "n mod 10 < 10" by simp
  from lt10_cases [OF this] show ?thesis
    unfolding dec_digit_def by (elim disjE) simp_all
qed

lemma is_digit_dec_digit [simp]: "is_digit (dec_digit n)"
  by (simp add: is_digit_def of_char_dec_digit)

lemma digit_val_dec_digit [simp]: "digit_val (dec_digit n) = n mod 10"
  by (simp add: digit_val_def of_char_dec_digit)

lemma digits_of_all_digits: "\<forall>c \<in> set (digits_of n). is_digit c"
  by (induction n rule: digits_of.induct) (subst digits_of.simps, simp)

lemma digits_of_nonempty [simp]: "digits_of n \<noteq> []"
  by (subst digits_of.simps) simp

lemma foldl_digits_of: "foldl (\<lambda>a c. 10 * a + digit_val c) 0 (digits_of n) = n"
  by (induction n rule: digits_of.induct) (subst digits_of.simps, simp)

lemma nat_of_digits_digits_of: "nat_of_digits (digits_of n) = n"
  by (simp add: nat_of_digits_def foldl_digits_of)

lemma hd_digits_of_zero: "hd (digits_of n) = CHR ''0'' \<longleftrightarrow> n = 0"
proof (induction n rule: digits_of.induct)
  case (1 n)
  show ?case
  proof (cases "n < 10")
    case True
    from lt10_cases [OF True] show ?thesis
      by (subst digits_of.simps) (auto simp: dec_digit_def)
  next
    case False
    then have "n div 10 \<noteq> 0" by simp
    with 1 False show ?thesis
      by (subst digits_of.simps) (simp add: hd_append)
  qed
qed

lemma hd_digits_of_digit: "is_digit (hd (digits_of n))"
  using digits_of_all_digits [of n] digits_of_nonempty [of n] by (cases "digits_of n") auto

lemma delim_simps [simp]:
  "delim []" "delim (CHR '','' # r)" "delim (CHR '']'' # r)" "delim (CHR ''}'' # r)"
  by (simp_all add: delim_def)

lemma takeWhile_digits:
  assumes "\<forall>c \<in> set ds. is_digit c" and "delim r"
  shows "takeWhile is_digit (ds @ r) = ds" and "dropWhile is_digit (ds @ r) = r"
proof -
  have r: "takeWhile is_digit r = []" "dropWhile is_digit r = r"
    using assms(2) by (cases r; auto simp: delim_def is_digit_def)+
  show "takeWhile is_digit (ds @ r) = ds"
    using assms(1) r by (simp add: takeWhile_append2)
  show "dropWhile is_digit (ds @ r) = r"
    using assms(1) r by (simp add: dropWhile_append2)
qed

lemma parse_nat_digits_of:
  assumes "delim r"
  shows "parse_nat (digits_of n @ r) = Some (n, r)"
proof -
  obtain c cs where ds: "digits_of n = c # cs" by (cases "digits_of n") auto
  have dig: "\<forall>c \<in> set (c # cs). is_digit c" using digits_of_all_digits [of n] ds by simp
  show ?thesis
  proof (cases "n = 0")
    case True
    then have "digits_of n = ''0''" by (subst digits_of.simps) (simp add: dec_digit_def)
    with True show ?thesis by (simp add: parse_nat_def)
  next
    case False
    then have "c \<noteq> CHR ''0''" using hd_digits_of_zero [of n] ds by simp
    moreover have "is_digit c" using dig by simp
    moreover have "takeWhile is_digit (c # cs @ r) = c # cs"
      "dropWhile is_digit (c # cs @ r) = r"
      using takeWhile_digits [OF dig assms] by simp_all
    moreover have "nat_of_digits (c # cs) = n" using nat_of_digits_digits_of [of n] ds by simp
    ultimately show ?thesis
      using ds by (simp add: parse_nat_def)
  qed
qed

lemma delim_no_fraction:
  "delim r \<Longrightarrow>
     (case r of [] \<Rightarrow> Some (i, r)
      | d # _ \<Rightarrow> if d = CHR ''.'' \<or> d = CHR ''e'' \<or> d = CHR ''E'' then None else Some (i, r))
     = Some (i, r)"
  by (cases r) (auto simp: delim_def)

lemma parse_number_show_int:
  assumes "delim r"
  shows "parse_number (show_int i @ r) = Some (i, r)"
proof (cases "i < 0")
  case True
  then show ?thesis
    using parse_nat_digits_of [OF assms, of "nat (- i)"] delim_no_fraction [OF assms, of i]
    by (simp add: parse_number_def show_int_def)
next
  case False
  obtain c cs where c: "digits_of (nat i) = c # cs" by (cases "digits_of (nat i)") auto
  have "c \<noteq> CHR ''-''" using hd_digits_of_digit [of "nat i"] c by (auto simp: is_digit_def)
  then show ?thesis
    using False c parse_nat_digits_of [OF assms, of "nat i"] delim_no_fraction [OF assms, of i]
    by (simp add: parse_number_def show_int_def)
qed

subsection \<open>Strings\<close>

lemma hex_val_hex_digit: "hex_val (hex_digit k) = Some (k mod 16)"
proof -
  have "k mod 16 < 16" by simp
  from lt16_cases [OF this] show ?thesis
    unfolding hex_digit_def hex_val_def by (elim disjE) simp_all
qed

lemma hex_val_zero: "hex_val (CHR ''0'') = Some 0"
  by (simp add: hex_val_def)

lemma parse_chars_escape:
  "parse_chars (escape_char c @ t) = map_option (\<lambda>(s, t'). (c # s, t')) (parse_chars t)"
proof -
  consider (short) "c = CHR 0x22 \<or> c = CHR 0x5C \<or> c = CHR 0x08 \<or> c = CHR 0x0C \<or> c = CHR 0x0A
      \<or> c = CHR 0x0D \<or> c = CHR 0x09"
    | (ctrl) "\<not> (c = CHR 0x22 \<or> c = CHR 0x5C \<or> c = CHR 0x08 \<or> c = CHR 0x0C \<or> c = CHR 0x0A
      \<or> c = CHR 0x0D \<or> c = CHR 0x09)" "(of_char c :: nat) < 32"
    | (plain) "c \<noteq> CHR 0x22" "c \<noteq> CHR 0x5C" "\<not> (of_char c :: nat) < 32"
    by blast
  then show ?thesis
  proof cases
    case short
    then show ?thesis by (elim disjE) (simp_all add: escape_char_def)
  next
    case ctrl
    let ?n = "of_char c :: nat"
    have v: "((0 * 16 + 0) * 16 + ?n div 16 mod 16) * 16 + ?n mod 16 = ?n"
      using ctrl(2) by simp
    have u: "utf8 ?n = [c]" using ctrl(2) by (simp add: utf8_def)
    show ?thesis
      using ctrl v u
      by (simp add: escape_char_def hex_val_hex_digit hex_val_zero)
  next
    case plain
    then show ?thesis by (simp add: escape_char_def)
  qed
qed

lemma parse_chars_escaped:
  "parse_chars (concat (map escape_char s) @ CHR 0x22 # t) = Some (s, t)"
  by (induction s) (simp_all add: parse_chars_escape)

lemma parse_string_quote: "parse_string (quote s @ t) = Some (s, t)"
  by (simp add: parse_string_def quote_def parse_chars_escaped)

lemma quote_hd: "\<exists>r. quote s = CHR 0x22 # r"
  by (simp add: quote_def)

subsection \<open>Values\<close>

lemma value_start_not:
  assumes "value_start c"
  shows "\<not> is_ws c" "c \<noteq> CHR '']''" "c \<noteq> CHR ''}''"
  using assms by (auto simp: value_start_def is_ws_def is_digit_def)

lemma stringify_start: "\<exists>c r. JSON_stringify v = c # r \<and> value_start c"
proof (cases v)
  case (JNum i)
  obtain c cs where c: "digits_of (nat i) = c # cs" by (cases "digits_of (nat i)") auto
  then have "is_digit c" using hd_digits_of_digit [of "nat i"] by simp
  moreover obtain c' cs' where c': "digits_of (nat (- i)) = c' # cs'"
    by (cases "digits_of (nat (- i))") auto
  ultimately show ?thesis using JNum c by (auto simp: show_int_def value_start_def)
qed (auto simp: value_start_def quote_def)

lemma skip_ws_start: "value_start c \<Longrightarrow> skip_ws (c # r) = c # r"
  by (simp add: skip_ws_def value_start_not)

lemma skip_ws_stringify [simp]: "skip_ws (JSON_stringify v @ r) = JSON_stringify v @ r"
  using stringify_start [of v] by (auto simp: skip_ws_start)

lemma skip_ws_punct [simp]:
  "skip_ws (CHR '','' # r) = CHR '','' # r" "skip_ws (CHR '']'' # r) = CHR '']'' # r"
  "skip_ws (CHR ''}'' # r) = CHR ''}'' # r" "skip_ws (CHR '':'' # r) = CHR '':'' # r"
  "skip_ws (CHR 0x22 # r) = CHR 0x22 # r" "skip_ws [] = []"
  by (simp_all add: skip_ws_def is_ws_def)

lemma commas_start:
  "xs \<noteq> [] \<Longrightarrow> \<exists>c r. commas (map JSON_stringify xs) = c # r \<and> value_start c"
proof (cases xs)
  case (Cons x ys)
  obtain c r where "JSON_stringify x = c # r" "value_start c" using stringify_start by blast
  then show ?thesis using Cons by (cases ys) auto
qed simp

lemma elements_roundtrip:
  assumes "\<And>x n r. x \<in> set xs \<Longrightarrow> length (JSON_stringify x) \<le> n \<Longrightarrow> delim r \<Longrightarrow>
             parse_value n (JSON_stringify x @ r) = Some (x, r)"
    and "xs \<noteq> []"
    and "length (commas (map JSON_stringify xs)) < n"
  shows "parse_elements n (commas (map JSON_stringify xs) @ CHR '']'' # t) = Some (xs, t)"
  using assms
proof (induction xs arbitrary: n)
  case Nil
  then show ?case by simp
next
  case (Cons x ys)
  from Cons.prems(3) obtain m where n: "n = Suc m" by (cases n) auto
  show ?case
  proof (cases "ys = []")
    case True
    have "parse_value m (JSON_stringify x @ CHR '']'' # t) = Some (x, CHR '']'' # t)"
      using Cons.prems(1) [of x m "CHR '']'' # t"] Cons.prems(3) n True by simp
    then show ?thesis using n True by simp
  next
    case False
    then obtain y zs where ys: "ys = y # zs" by (cases ys) auto
    let ?rest = "commas (map JSON_stringify ys) @ CHR '']'' # t"
    have len: "length (JSON_stringify x) \<le> m" "length (commas (map JSON_stringify ys)) < m"
      using Cons.prems(3) n ys by simp_all
    have 1: "parse_value m (JSON_stringify x @ CHR '','' # ?rest) = Some (x, CHR '','' # ?rest)"
      using Cons.prems(1) [of x m "CHR '','' # ?rest"] len by simp
    obtain c r where c: "commas (map JSON_stringify ys) = c # r" "value_start c"
      using commas_start [OF False] by auto
    have 2: "skip_ws ?rest = ?rest" using c by (simp add: skip_ws_start)
    have 3: "parse_elements m ?rest = Some (ys, t)"
    proof (rule Cons.IH)
      show "ys \<noteq> []" by (rule False)
      show "length (commas (map JSON_stringify ys)) < m" by (rule len(2))
      show "parse_value n (JSON_stringify x @ r) = Some (x, r)"
        if "x \<in> set ys" "length (JSON_stringify x) \<le> n" "delim r" for x n r
        using Cons.prems(1) [of x n r] that by simp
    qed
    show ?thesis using n ys 1 2 3 by simp
  qed
qed

lemma members_start:
  "kvs \<noteq> [] \<Longrightarrow> \<exists>r. commas (map member_text kvs) = CHR 0x22 # r"
proof (cases kvs)
  case (Cons kv ys)
  then show ?thesis by (cases ys; cases kv) (auto simp: quote_def)
qed simp

lemma members_roundtrip:
  assumes "\<And>k v n r. (k, v) \<in> set kvs \<Longrightarrow> length (JSON_stringify v) \<le> n \<Longrightarrow> delim r \<Longrightarrow>
             parse_value n (JSON_stringify v @ r) = Some (v, r)"
    and "kvs \<noteq> []"
    and "length (commas (map member_text kvs)) < n"
  shows "parse_members n (commas (map member_text kvs) @ CHR ''}'' # t) = Some (kvs, t)"
  using assms
proof (induction kvs arbitrary: n)
  case Nil
  then show ?case by simp
next
  case (Cons kv ys)
  obtain k v where kv: "kv = (k, v)" by (cases kv)
  from Cons.prems(3) obtain m where n: "n = Suc m" by (cases n) auto
  show ?case
  proof (cases "ys = []")
    case True
    have "length (JSON_stringify v) \<le> m" using Cons.prems(3) n True kv by simp
    then have "parse_value m (JSON_stringify v @ CHR ''}'' # t) = Some (v, CHR ''}'' # t)"
      using Cons.prems(1) [of k v m "CHR ''}'' # t"] kv by simp
    then show ?thesis using n True kv by (simp add: parse_string_quote)
  next
    case False
    then obtain y zs where ys: "ys = y # zs" by (cases ys) auto
    let ?rest = "commas (map member_text ys) @ CHR ''}'' # t"
    have len: "length (JSON_stringify v) \<le> m" "length (commas (map member_text ys)) < m"
      using Cons.prems(3) n ys kv by simp_all
    have 1: "parse_value m (JSON_stringify v @ CHR '','' # ?rest) = Some (v, CHR '','' # ?rest)"
      using Cons.prems(1) [of k v m "CHR '','' # ?rest"] len kv by simp
    obtain r where c: "commas (map member_text ys) = CHR 0x22 # r"
      using members_start [OF False] by auto
    have 2: "skip_ws ?rest = ?rest" using c by simp
    have 3: "parse_members m ?rest = Some (ys, t)"
    proof (rule Cons.IH)
      show "ys \<noteq> []" by (rule False)
      show "length (commas (map member_text ys)) < m" by (rule len(2))
      show "parse_value n (JSON_stringify v @ r) = Some (v, r)"
        if "(k, v) \<in> set ys" "length (JSON_stringify v) \<le> n" "delim r" for k v n r
        using Cons.prems(1) [of k v n r] that by simp
    qed
    show ?thesis using n ys kv 1 2 3 by (simp add: parse_string_quote)
  qed
qed

lemma literal_prefix [simp]: "literal w (w @ r) = Some r"
  by (simp add: literal_def)

lemma value_roundtrip:
  "length (JSON_stringify v) \<le> n \<Longrightarrow> delim r \<Longrightarrow>
     parse_value n (JSON_stringify v @ r) = Some (v, r)"
proof (induction v arbitrary: n r)
  case JNull
  then obtain m where "n = Suc m" by (cases n) auto
  then show ?case using literal_prefix [of "''null''" r] by simp
next
  case (JBool b)
  then obtain m where "n = Suc m" by (cases n; cases b) auto
  then show ?case
    using literal_prefix [of "''true''" r] literal_prefix [of "''false''" r] by simp
next
  case (JNum i)
  obtain c cs where c: "show_int i = c # cs" "value_start c"
    using stringify_start [of "JNum i"] by auto
  then have "is_digit c \<or> c = CHR ''-''"
    using hd_digits_of_digit [of "nat i"] hd_digits_of_digit [of "nat (- i)"]
    by (auto simp: show_int_def split: if_splits)
  then have nc: "c \<noteq> CHR ''n''" "c \<noteq> CHR ''t''" "c \<noteq> CHR ''f''" "c \<noteq> CHR 0x22"
    "c \<noteq> CHR ''[''" "c \<noteq> CHR ''{''"
    by (auto simp: is_digit_def)
  from JNum c obtain m where "n = Suc m" by (cases n) auto
  then show ?case
    using nc c(1) parse_number_show_int [OF JNum.prems(2), of i] by simp
next
  case (JStr s)
  then obtain m where "n = Suc m" by (cases n) (auto simp: quote_def)
  moreover obtain q where "quote s = CHR 0x22 # q" using quote_hd by blast
  ultimately show ?case using parse_string_quote [of s r] by simp
next
  case (JArr xs)
  from JArr.prems obtain m where n: "n = Suc m" by (cases n) auto
  show ?case
  proof (cases "xs = []")
    case True
    then show ?thesis using n by simp
  next
    case False
    obtain c q where c: "commas (map JSON_stringify xs) = c # q" "value_start c"
      using commas_start [OF False] by blast
    have "length (commas (map JSON_stringify xs)) < m" using JArr.prems(1) n by simp
    then have "parse_elements m (commas (map JSON_stringify xs) @ CHR '']'' # r) = Some (xs, r)"
      using elements_roundtrip [of xs m r] JArr.IH False by simp
    then show ?thesis
      using n c value_start_not [OF c(2)] by (simp add: skip_ws_start)
  qed
next
  case (JObj kvs)
  from JObj.prems obtain m where n: "n = Suc m" by (cases n) auto
  show ?case
  proof (cases "kvs = []")
    case True
    then show ?thesis using n by simp
  next
    case False
    obtain q where c: "commas (map member_text kvs) = CHR 0x22 # q"
      using members_start [OF False] by blast
    have "length (commas (map member_text kvs)) < m" using JObj.prems(1) n by simp
    moreover have "\<And>k v n r. (k, v) \<in> set kvs \<Longrightarrow> length (JSON_stringify v) \<le> n \<Longrightarrow>
        delim r \<Longrightarrow> parse_value n (JSON_stringify v @ r) = Some (v, r)"
      using JObj.IH by (metis snds.intros snd_conv)
    ultimately have
      "parse_members m (commas (map member_text kvs) @ CHR ''}'' # r) = Some (kvs, r)"
      using members_roundtrip [of kvs m r] False by simp
    then show ?thesis
      using n c by simp
  qed
qed

lemma JSON_roundtrip: "JSON_parse (JSON_stringify v) = Inr v"
proof -
  have "parse_value (Suc (length (JSON_stringify v))) (JSON_stringify v @ []) = Some (v, [])"
    by (rule value_roundtrip) simp_all
  moreover have "skip_ws (JSON_stringify v) = JSON_stringify v"
    using skip_ws_stringify [of v "[]"] by simp
  ultimately show ?thesis
    unfolding JSON_parse_def by (simp del: parse_value.simps)
qed

lemma JSON_stringify_nonempty: "JSON_stringify v \<noteq> []"
  using stringify_start [of v] by auto


subsection \<open>The bound on the depth of the descent is no restriction\<close>

lemma skip_ws_length: "length (skip_ws cs) \<le> length cs"
  by (simp add: skip_ws_def length_dropWhile_le)

lemma literal_shorter: "w \<noteq> [] \<Longrightarrow> literal w cs = Some r \<Longrightarrow> length r < length cs"
  by (cases cs; cases w) (auto simp: literal_def split: if_splits)

lemma parse_chars_shorter: "parse_chars cs = Some (s, r) \<Longrightarrow> length r < length cs"
proof (induction "length cs" arbitrary: cs s r rule: less_induct)
  case less
  show ?case
  proof (cases cs)
    case Nil
    with less.prems show ?thesis by simp
  next
    case (Cons c t)
    have step: "length r' < length t'"
      if "parse_chars t' = Some (s', r')" "length t' < length cs" for t' s' r'
      using less.hyps [OF that(2) that(1)] .
    from less.prems Cons show ?thesis
      by (fastforce split: if_splits list.splits option.splits prod.splits dest: step)
  qed
qed

lemma parse_string_shorter: "parse_string cs = Some (s, r) \<Longrightarrow> length r < length cs"
  by (cases cs) (auto simp: parse_string_def split: if_splits dest: parse_chars_shorter)

lemma parse_nat_shorter:
  assumes "parse_nat cs = Some (n, r)"
  shows "length r < length cs"
proof (cases cs)
  case Nil
  with assms show ?thesis by (simp add: parse_nat_def)
next
  case (Cons c t)
  have "length (dropWhile is_digit t) \<le> length t" by (rule length_dropWhile_le)
  with assms Cons show ?thesis
    by (auto simp: parse_nat_def split: if_splits)
qed

lemma parse_number_shorter: "parse_number cs = Some (i, r) \<Longrightarrow> length r < length cs"
  by (cases cs)
    (auto simp: parse_number_def split: if_splits option.splits list.splits
      dest!: parse_nat_shorter)

lemma parse_value_leaf:
  assumes "c \<noteq> CHR ''[''" and "c \<noteq> CHR ''{''"
  shows "parse_value (Suc m) (c # t) = parse_value (Suc n) (c # t)"
  using assms by simp

lemma parse_value_leaf_shorter:
  assumes "c \<noteq> CHR ''[''" and "c \<noteq> CHR ''{''"
    and "parse_value (Suc n) (c # t) = Some (v, r)"
  shows "length r < length (c # t)"
  using assms
  by (auto split: if_splits
      dest!: parse_number_shorter parse_string_shorter literal_shorter [rotated])

lemma fuel_adequate:
  "(\<forall>cs v r. parse_value n cs = Some (v, r) \<longrightarrow>
      length r < length cs
      \<and> (\<forall>m. length cs - length r \<le> m \<longrightarrow> parse_value m cs = Some (v, r)))
   \<and> (\<forall>cs xs r. parse_elements n cs = Some (xs, r) \<longrightarrow>
      length r < length cs
      \<and> (\<forall>m. length cs - length r \<le> m \<longrightarrow> parse_elements m cs = Some (xs, r)))
   \<and> (\<forall>cs kvs r. parse_members n cs = Some (kvs, r) \<longrightarrow>
      length r < length cs
      \<and> (\<forall>m. length cs - length r \<le> m \<longrightarrow> parse_members m cs = Some (kvs, r)))"
proof (induction n)
  case 0
  show ?case by simp
next
  case (Suc n)
  have V: "length r < length cs \<and> (\<forall>m. length cs - length r \<le> m \<longrightarrow> parse_value m cs = Some (v, r))"
    if "parse_value n cs = Some (v, r)" for cs v r
    using Suc that by blast
  have E: "length r < length cs
      \<and> (\<forall>m. length cs - length r \<le> m \<longrightarrow> parse_elements m cs = Some (xs, r))"
    if "parse_elements n cs = Some (xs, r)" for cs xs r
    using Suc that by blast
  have M: "length r < length cs
      \<and> (\<forall>m. length cs - length r \<le> m \<longrightarrow> parse_members m cs = Some (kvs, r))"
    if "parse_members n cs = Some (kvs, r)" for cs kvs r
    using Suc that by blast
  have vstep: "length r < length cs
      \<and> (\<forall>m. length cs - length r \<le> m \<longrightarrow> parse_value m cs = Some (v, r))"
    if p: "parse_value (Suc n) cs = Some (v, r)" for cs v r
  proof -
    from p obtain c t where cs: "cs = c # t" by (cases cs) auto
    consider (arr) "c = CHR ''[''" | (obj) "c = CHR ''{''"
      | (leaf) "c \<noteq> CHR ''[''" "c \<noteq> CHR ''{''" by blast
    then show ?thesis
    proof cases
      case leaf
      have short: "length r < length cs"
        using parse_value_leaf_shorter [OF leaf] p cs by simp
      moreover have "parse_value m cs = Some (v, r)" if "length cs - length r \<le> m" for m
      proof -
        from that short obtain m' where "m = Suc m'" by (cases m) auto
        then show ?thesis using parse_value_leaf [OF leaf, of m' t n] p cs by simp
      qed
      ultimately show ?thesis by blast
    next
      case arr
      from p cs arr obtain d r' where ws: "skip_ws t = d # r'"
        by (cases "skip_ws t") auto
      have len: "length (d # r') \<le> length t" using skip_ws_length [of t] ws by simp
      show ?thesis
      proof (cases "d = CHR '']''")
        case True
        with p cs arr ws have r: "r = r'" "v = JArr []" by simp_all
        have short: "length r < length cs" using r len cs by simp
        moreover have "parse_value m cs = Some (v, r)" if "length cs - length r \<le> m" for m
        proof -
          from that short obtain m' where "m = Suc m'" by (cases m) auto
          then show ?thesis using cs arr ws True r by simp
        qed
        ultimately show ?thesis by blast
      next
        case False
        with p cs arr ws obtain xs where xs: "parse_elements n (d # r') = Some (xs, r)"
          and v: "v = JArr xs"
          by auto
        from E [OF xs] have e1: "length r < length (d # r')"
          and e2: "\<And>m. length (d # r') - length r \<le> m \<Longrightarrow>
            parse_elements m (d # r') = Some (xs, r)"
          by blast+
        have short: "length r < length cs" using e1 len cs by simp
        moreover have "parse_value m cs = Some (v, r)" if "length cs - length r \<le> m" for m
        proof -
          from that short obtain m' where m: "m = Suc m'" by (cases m) auto
          have "length (d # r') - length r \<le> m'" using that m len cs by simp
          then have "parse_elements m' (d # r') = Some (xs, r)" by (rule e2)
          then show ?thesis using m cs arr ws False v by simp
        qed
        ultimately show ?thesis by blast
      qed
    next
      case obj
      from p cs obj obtain d r' where ws: "skip_ws t = d # r'"
        by (cases "skip_ws t") auto
      have len: "length (d # r') \<le> length t" using skip_ws_length [of t] ws by simp
      show ?thesis
      proof (cases "d = CHR ''}''")
        case True
        with p cs obj ws have r: "r = r'" "v = JObj []" by simp_all
        have short: "length r < length cs" using r len cs by simp
        moreover have "parse_value m cs = Some (v, r)" if "length cs - length r \<le> m" for m
        proof -
          from that short obtain m' where "m = Suc m'" by (cases m) auto
          then show ?thesis using cs obj ws True r by simp
        qed
        ultimately show ?thesis by blast
      next
        case False
        with p cs obj ws obtain kvs where kvs: "parse_members n (d # r') = Some (kvs, r)"
          and v: "v = JObj kvs"
          by auto
        from M [OF kvs] have e1: "length r < length (d # r')"
          and e2: "\<And>m. length (d # r') - length r \<le> m \<Longrightarrow>
            parse_members m (d # r') = Some (kvs, r)"
          by blast+
        have short: "length r < length cs" using e1 len cs by simp
        moreover have "parse_value m cs = Some (v, r)" if "length cs - length r \<le> m" for m
        proof -
          from that short obtain m' where m: "m = Suc m'" by (cases m) auto
          have "length (d # r') - length r \<le> m'" using that m len cs by simp
          then have "parse_members m' (d # r') = Some (kvs, r)" by (rule e2)
          then show ?thesis using m cs obj ws False v by simp
        qed
        ultimately show ?thesis by blast
      qed
    qed
  qed
  have elements: "length r < length cs
      \<and> (\<forall>m. length cs - length r \<le> m \<longrightarrow> parse_elements m cs = Some (xs, r))"
    if p: "parse_elements (Suc n) cs = Some (xs, r)" for cs xs r
  proof -
    from p obtain x r1 where x: "parse_value n cs = Some (x, r1)"
      by (auto split: option.splits)
    from V [OF x] have vx1: "length r1 < length cs"
      and vx2: "\<And>m. length cs - length r1 \<le> m \<Longrightarrow> parse_value m cs = Some (x, r1)"
      by blast+
    from p x obtain d r2 where ws: "skip_ws r1 = d # r2"
      by (cases "skip_ws r1") auto
    have len: "length (d # r2) \<le> length r1" using skip_ws_length [of r1] ws by simp
    from p x ws consider (last) "d = CHR '']''" "xs = [x]" "r = r2"
      | (more) "d = CHR '',''" "d \<noteq> CHR '']''"
      by (auto split: if_splits)
    then show ?thesis
    proof cases
      case last
      have short: "length r < length cs" using last len vx1 by simp
      moreover have "parse_elements m cs = Some (xs, r)" if "length cs - length r \<le> m" for m
      proof -
        from that short obtain m' where m: "m = Suc m'" by (cases m) auto
        have "length cs - length r1 \<le> m'" using that m len last vx1 by simp
        then have "parse_value m' cs = Some (x, r1)" by (rule vx2)
        then show ?thesis using m ws last by simp
      qed
      ultimately show ?thesis by blast
    next
      case more
      with p x ws obtain ys where ys: "parse_elements n (skip_ws r2) = Some (ys, r)"
        and xs: "xs = x # ys"
        by auto
      from E [OF ys] have e1: "length r < length (skip_ws r2)"
        and e2: "\<And>m. length (skip_ws r2) - length r \<le> m \<Longrightarrow>
          parse_elements m (skip_ws r2) = Some (ys, r)"
        by blast+
      have len2: "length (skip_ws r2) \<le> length r2" by (rule skip_ws_length)
      have short: "length r < length cs" using e1 len len2 vx1 by simp
      moreover have "parse_elements m cs = Some (xs, r)" if "length cs - length r \<le> m" for m
      proof -
        from that short obtain m' where m: "m = Suc m'" by (cases m) auto
        have "length cs - length r1 \<le> m'" using that m len len2 e1 vx1 by simp
        then have 1: "parse_value m' cs = Some (x, r1)" by (rule vx2)
        have "length (skip_ws r2) - length r \<le> m'" using that m len len2 e1 vx1 by simp
        then have 2: "parse_elements m' (skip_ws r2) = Some (ys, r)" by (rule e2)
        show ?thesis using m ws more xs 1 2 by simp
      qed
      ultimately show ?thesis by blast
    qed
  qed
  have members: "length r < length cs
      \<and> (\<forall>m. length cs - length r \<le> m \<longrightarrow> parse_members m cs = Some (kvs, r))"
    if p: "parse_members (Suc n) cs = Some (kvs, r)" for cs kvs r
  proof -
    from p obtain k r0 where k: "parse_string cs = Some (k, r0)"
      by (auto split: option.splits)
    have l0: "length r0 < length cs" using k by (rule parse_string_shorter)
    from p k obtain d0 r0' where ws0: "skip_ws r0 = d0 # r0'"
      by (cases "skip_ws r0") auto
    have len0: "length (d0 # r0') \<le> length r0" using skip_ws_length [of r0] ws0 by simp
    from p k ws0 have colon: "d0 = CHR '':''" by (auto split: if_splits)
    have lenv: "length (skip_ws r0') \<le> length r0'" by (rule skip_ws_length)
    from p k ws0 colon obtain x r1 where x: "parse_value n (skip_ws r0') = Some (x, r1)"
      by (auto split: option.splits)
    from V [OF x] have vx1: "length r1 < length (skip_ws r0')"
      and vx2: "\<And>m. length (skip_ws r0') - length r1 \<le> m \<Longrightarrow>
        parse_value m (skip_ws r0') = Some (x, r1)"
      by blast+
    from p k ws0 colon x obtain d r2 where ws: "skip_ws r1 = d # r2"
      by (cases "skip_ws r1") auto
    have len: "length (d # r2) \<le> length r1" using skip_ws_length [of r1] ws by simp
    from p k ws0 colon x ws consider (last) "d = CHR ''}''" "kvs = [(k, x)]" "r = r2"
      | (more) "d = CHR '',''" "d \<noteq> CHR ''}''"
      by (auto split: if_splits)
    then show ?thesis
    proof cases
      case last
      have short: "length r < length cs" using last len vx1 l0 len0 lenv by simp
      moreover have "parse_members m cs = Some (kvs, r)" if "length cs - length r \<le> m" for m
      proof -
        from that short obtain m' where m: "m = Suc m'" by (cases m) auto
        have "length (skip_ws r0') - length r1 \<le> m'"
          using that m len last vx1 l0 len0 lenv by simp
        then have "parse_value m' (skip_ws r0') = Some (x, r1)" by (rule vx2)
        then show ?thesis using m k ws0 colon ws last by simp
      qed
      ultimately show ?thesis by blast
    next
      case more
      with p k ws0 colon x ws obtain ys where ys: "parse_members n (skip_ws r2) = Some (ys, r)"
        and kvs: "kvs = (k, x) # ys"
        by auto
      from M [OF ys] have e1: "length r < length (skip_ws r2)"
        and e2: "\<And>m. length (skip_ws r2) - length r \<le> m \<Longrightarrow>
          parse_members m (skip_ws r2) = Some (ys, r)"
        by blast+
      have len2: "length (skip_ws r2) \<le> length r2" by (rule skip_ws_length)
      have short: "length r < length cs" using e1 len len2 vx1 l0 len0 lenv by simp
      moreover have "parse_members m cs = Some (kvs, r)" if "length cs - length r \<le> m" for m
      proof -
        from that short obtain m' where m: "m = Suc m'" by (cases m) auto
        have "length (skip_ws r0') - length r1 \<le> m'"
          using that m len len2 e1 vx1 l0 len0 lenv by simp
        then have 1: "parse_value m' (skip_ws r0') = Some (x, r1)" by (rule vx2)
        have "length (skip_ws r2) - length r \<le> m'"
          using that m len len2 e1 vx1 l0 len0 lenv by simp
        then have 2: "parse_members m' (skip_ws r2) = Some (ys, r)" by (rule e2)
        show ?thesis using m k ws0 colon ws more kvs 1 2 by simp
      qed
      ultimately show ?thesis by blast
    qed
  qed
  from vstep elements members show ?case by blast
qed

text \<open>
  Whatever depth the descent is allowed, it finds no more than \<open>JSON_parse\<close> does: the
  bound by the length of the text never cuts a parse short.
\<close>

lemma JSON_parse_complete:
  assumes "parse_value n (skip_ws blob) = Some (v, r)" and "skip_ws r = []"
  shows "JSON_parse blob = Inr v"
proof -
  have "length (skip_ws blob) - length r \<le> Suc (length blob)"
    using skip_ws_length [of blob] by simp
  with fuel_adequate [of n] assms(1)
  have "parse_value (Suc (length blob)) (skip_ws blob) = Some (v, r)" by blast
  with assms(2) show ?thesis
    unfolding JSON_parse_def by (simp del: parse_value.simps)
qed

section \<open>The metadata client\<close>

lemma encodeURIComponent_throws: "encodeURIComponent query = Inl e \<Longrightarrow> e = URIError"
  by (induction query arbitrary: e rule: encodeURIComponent.induct)
    (auto simp: followed_by_def split: if_splits list.splits sum.splits)

lemma searchMovies_guard:
  "query = [] \<or> apiKey = TMDB_API_KEY_PLACEHOLDER \<Longrightarrow>
     searchMovies apiKey query net = (Inr (Value (JArr [])), net)"
  by (auto simp: searchMovies_def)

lemma searchMovies_unencodable:
  "query \<noteq> [] \<Longrightarrow> apiKey \<noteq> TMDB_API_KEY_PLACEHOLDER \<Longrightarrow> encodeURIComponent query = Inl e \<Longrightarrow>
     searchMovies apiKey query net = (Inr (Value (JArr [])), net)"
  by (simp add: searchMovies_def searchMovies_try_def)

lemma searchMovies_request:
  "query \<noteq> [] \<Longrightarrow> apiKey \<noteq> TMDB_API_KEY_PLACEHOLDER \<Longrightarrow>
   encodeURIComponent query = Inr encoded \<Longrightarrow>
     searchMovies apiKey query net =
       (case respond net (search_url apiKey encoded) of
          Inl e \<Rightarrow> Inr (Value (JArr []))
        | Inr response \<Rightarrow>
            if \<not> ok response then Inr (Value (JArr []))
            else
              (case JSON_parse (body response) of
                 Inl e \<Rightarrow> Inr (Value (JArr []))
               | Inr data \<Rightarrow>
                   (case get_results data of
                      Inl e \<Rightarrow> Inr (Value (JArr []))
                    | Inr results \<Rightarrow> Inr results)),
        net\<lparr>requests := requests net @ [search_url apiKey encoded]\<rparr>)"
  by (simp add: searchMovies_def searchMovies_try_def fetch_def split: sum.splits)

lemma searchMovies_fulfilled: "\<exists>v. fst (searchMovies apiKey query net) = Inr v"
proof (cases "query = [] \<or> apiKey = TMDB_API_KEY_PLACEHOLDER")
  case True
  then show ?thesis by (simp add: searchMovies_guard)
next
  case False
  then show ?thesis
    by (cases "encodeURIComponent query")
      (auto simp: searchMovies_unencodable searchMovies_request split: sum.splits)
qed

text \<open>
  C5, as the code has it. The search never raises: the promise it returns is fulfilled
  for every key, query and network. With an empty query or the placeholder key it gives
  the empty sequence and sends no request: the network is as it was. Otherwise, a query
  that cannot be encoded gives the empty sequence and sends no request either; a query
  that can be encoded sends exactly one request, for the URL built from its encoding, and
  the search gives the empty sequence when that request fails in transport or the response
  is not a success.
\<close>

theorem searchMovies_safe:
  "(\<exists>v. fst (searchMovies apiKey query net) = Inr v)
   \<and> (query = [] \<or> apiKey = TMDB_API_KEY_PLACEHOLDER \<longrightarrow>
        searchMovies apiKey query net = (Inr (Value (JArr [])), net))
   \<and> (query \<noteq> [] \<and> apiKey \<noteq> TMDB_API_KEY_PLACEHOLDER \<longrightarrow>
        (encodeURIComponent query = Inl URIError \<longrightarrow>
           searchMovies apiKey query net = (Inr (Value (JArr [])), net))
        \<and> (\<forall>encoded. encodeURIComponent query = Inr encoded \<longrightarrow>
              snd (searchMovies apiKey query net)
                = net\<lparr>requests := requests net @ [search_url apiKey encoded]\<rparr>
              \<and> ((\<exists>e. respond net (search_url apiKey encoded) = Inl e) \<longrightarrow>
                    fst (searchMovies apiKey query net) = Inr (Value (JArr [])))
              \<and> (\<forall>response.
                    respond net (search_url apiKey encoded) = Inr response \<and> \<not> ok response \<longrightarrow>
                    fst (searchMovies apiKey query net) = Inr (Value (JArr []))))
        \<and> (encodeURIComponent query = Inl URIError \<or> (\<exists>encoded. encodeURIComponent query = Inr encoded)))"
proof (intro conjI impI allI)
  show "\<exists>v. fst (searchMovies apiKey query net) = Inr v"
    by (rule searchMovies_fulfilled)
  show "searchMovies apiKey query net = (Inr (Value (JArr [])), net)"
    if "query = [] \<or> apiKey = TMDB_API_KEY_PLACEHOLDER"
    using that by (rule searchMovies_guard)
next
  assume "query \<noteq> [] \<and> apiKey \<noteq> TMDB_API_KEY_PLACEHOLDER"
  then have q: "query \<noteq> []" and k: "apiKey \<noteq> TMDB_API_KEY_PLACEHOLDER" by simp_all
  show "searchMovies apiKey query net = (Inr (Value (JArr [])), net)"
    if "encodeURIComponent query = Inl URIError"
    using q k that by (rule searchMovies_unencodable)
  show "encodeURIComponent query = Inl URIError \<or> (\<exists>encoded. encodeURIComponent query = Inr encoded)"
    by (cases "encodeURIComponent query") (auto dest: encodeURIComponent_throws)
  fix encoded
  assume "encodeURIComponent query = Inr encoded"
  note eq = searchMovies_request [OF q k this]
  show "snd (searchMovies apiKey query net)
      = net\<lparr>requests := requests net @ [search_url apiKey encoded]\<rparr>"
    by (simp add: eq)
  show "fst (searchMovies apiKey query net) = Inr (Value (JArr []))"
    if "\<exists>e. respond net (search_url apiKey encoded) = Inl e"
    using that by (auto simp: eq)
  show "fst (searchMovies apiKey query net) = Inr (Value (JArr []))"
    if "respond net (search_url apiKey encoded) = Inr response \<and> \<not> ok response" for response
    using that by (simp add: eq)
qed

lemma encodeURIComponent_dune: "encodeURIComponent dune_query = Inr ''dune''"
  by (simp add: dune_query_def uri_unreserved_def followed_by_def char_of_def bit_0)

lemma encodeURIComponent_lone_surrogate: "encodeURIComponent lone_surrogate = Inl URIError"
  by (simp add: lone_surrogate_def uri_unreserved_def leading_surrogate_def
      trailing_surrogate_def)

lemma encodeURIComponent_examples:
  "encodeURIComponent [0x20, 0xE9, 0x20AC, 0x41] = Inr ''%20%C3%A9%E2%82%ACA''"
  "encodeURIComponent [0xD83D, 0xDE00] = Inr ''%F0%9F%98%80''"
  "encodeURIComponent [0x41, 0xDC00] = Inl URIError"
  "encodeURIComponent [0xD800, 0x41] = Inl URIError"
  by (simp_all add: uri_unreserved_def leading_surrogate_def trailing_surrogate_def
      followed_by_def uri_escape_def utf8_octets_def surrogate_pair_code_point_def uri_hex_def
      char_of_def bit_0)

lemma example_queries: "dune_query \<noteq> []" "lone_surrogate \<noteq> []"
  by (simp_all add: dune_query_def lone_surrogate_def)

lemma example_keys:
  "''key'' \<noteq> TMDB_API_KEY_PLACEHOLDER" "TMDB_API_KEY = TMDB_API_KEY_PLACEHOLDER"
  by (simp_all add: TMDB_API_KEY_def TMDB_API_KEY_PLACEHOLDER_def)

theorem searchMovies_safe_witness:
  "searchMovies ''key'' [] offline = (Inr (Value (JArr [])), offline)
   \<and> searchMovies TMDB_API_KEY dune_query offline = (Inr (Value (JArr [])), offline)
   \<and> searchMovies ''key'' lone_surrogate offline = (Inr (Value (JArr [])), offline)
   \<and> searchMovies ''key'' dune_query offline
       = (Inr (Value (JArr [])), offline\<lparr>requests := [search_url ''key'' ''dune'']\<rparr>)
   \<and> searchMovies ''key'' dune_query not_found
       = (Inr (Value (JArr [])), not_found\<lparr>requests := [search_url ''key'' ''dune'']\<rparr>)"
proof -
  have g1: "searchMovies ''key'' [] offline = (Inr (Value (JArr [])), offline)"
    using searchMovies_safe [of "''key''" "[]" offline] by simp
  have g2: "searchMovies TMDB_API_KEY dune_query offline = (Inr (Value (JArr [])), offline)"
    using searchMovies_safe [of TMDB_API_KEY dune_query offline] by (simp add: example_keys)
  have u: "searchMovies ''key'' lone_surrogate offline = (Inr (Value (JArr [])), offline)"
    using searchMovies_safe [of "''key''" lone_surrogate offline]
    by (simp add: example_keys example_queries encodeURIComponent_lone_surrogate)
  have "respond offline (search_url ''key'' ''dune'') = Inl FetchFailed"
    by (simp add: offline_def)
  then have f: "searchMovies ''key'' dune_query offline
      = (Inr (Value (JArr [])), offline\<lparr>requests := [search_url ''key'' ''dune'']\<rparr>)"
    using searchMovies_safe [of "''key''" dune_query offline]
    by (simp add: example_keys example_queries encodeURIComponent_dune prod_eq_iff offline_def)
  have "respond not_found (search_url ''key'' ''dune'') = Inr \<lparr>status = 404, body = []\<rparr>"
    and "\<not> ok \<lparr>status = 404, body = []\<rparr>"
    by (simp_all add: not_found_def ok_def)
  then have n: "searchMovies ''key'' dune_query not_found
      = (Inr (Value (JArr [])), not_found\<lparr>requests := [search_url ''key'' ''dune'']\<rparr>)"
    using searchMovies_safe [of "''key''" dune_query not_found]
    by (simp add: example_keys example_queries encodeURIComponent_dune prod_eq_iff not_found_def)
  from g1 g2 u f n show ?thesis by blast
qed

text \<open>
  The claim C5 as stated fails. The query is not empty and the key is configured, and the
  network would answer a request; but the query is a lone surrogate, encoding it throws
  inside the \<^verbatim>\<open>try\<close> block before \<^verbatim>\<open>fetch\<close> is called, and the search gives the empty
  sequence having sent no request, not one.
\<close>

theorem searchMovies_request_counterexample:
  "lone_surrogate \<noteq> [] \<and> ''key'' \<noteq> TMDB_API_KEY_PLACEHOLDER
   \<and> requests empty_object = []
   \<and> requests (snd (searchMovies ''key'' lone_surrogate empty_object)) = []
   \<and> fst (searchMovies ''key'' lone_surrogate empty_object) = Inr (Value (JArr []))"
  by (simp add: example_keys example_queries searchMovies_def searchMovies_try_def
      encodeURIComponent_lone_surrogate empty_object_def)

text \<open>
  C10. The search hands on the \<^verbatim>\<open>results\<close> member of the response body as it is: for a
  successful response whose body is a JSON object, it resolves to \<^verbatim>\<open>undefined\<close> when the
  object has no such member, and to the member's value, whatever it is, when it has one.
\<close>

theorem searchMovies_results_unvalidated:
  assumes "query \<noteq> []" and "apiKey \<noteq> TMDB_API_KEY_PLACEHOLDER"
    and "encodeURIComponent query = Inr encoded"
    and "respond net (search_url apiKey encoded) = Inr response" and "ok response"
    and "JSON_parse (body response) = Inr (JObj kvs)"
  shows "(''results'' \<notin> fst ` set kvs \<longrightarrow>
            fst (searchMovies apiKey query net) = Inr Undefined)
         \<and> (\<forall>v. map_of (rev kvs) ''results'' = Some v \<longrightarrow>
              fst (searchMovies apiKey query net) = Inr (Value v))"
proof -
  have "''results'' \<notin> fst ` set kvs \<Longrightarrow> map_of (rev kvs) ''results'' = None"
    by (simp add: map_of_eq_None_iff)
  then show ?thesis
    using assms by (auto simp: searchMovies_request get_results_def)
qed

lemma JSON_parse_empty_object: "JSON_parse ''{}'' = Inr (JObj [])"
  by (simp add: JSON_parse_def skip_ws_def is_ws_def)

theorem searchMovies_results_unvalidated_witness:
  "ok \<lparr>status = 200, body = ''{}''\<rparr>
   \<and> fst (searchMovies ''key'' dune_query empty_object) = Inr Undefined"
proof -
  have ok: "ok \<lparr>status = 200, body = ''{}''\<rparr>" by (simp add: ok_def)
  have "respond empty_object (search_url ''key'' ''dune'') = Inr \<lparr>status = 200, body = ''{}''\<rparr>"
    by (simp add: empty_object_def)
  then have "''results'' \<notin> fst ` set [] \<longrightarrow>
      fst (searchMovies ''key'' dune_query empty_object) = Inr Undefined"
    using searchMovies_results_unvalidated
      [of dune_query "''key''" "''dune''" empty_object "\<lparr>status = 200, body = ''{}''\<rparr>" "[]"]
      ok JSON_parse_empty_object
    by (simp add: example_keys example_queries encodeURIComponent_dune)
  with ok show ?thesis by simp
qed
section \<open>The storage service\<close>

lemma getItemsFromStorage_total: "\<exists>v. getItemsFromStorage key ls = Inr v"
  by (cases "getItemsFromStorage_try key ls") (simp_all add: getItemsFromStorage_def)

lemma getItemsFromStorage_parsed:
  "available ls \<Longrightarrow> entries ls key = Some blob \<Longrightarrow> blob \<noteq> [] \<Longrightarrow>
     JSON_parse blob = Inr v \<Longrightarrow> getItemsFromStorage key ls = Inr v"
  by (simp add: getItemsFromStorage_def getItemsFromStorage_try_def localStorage_getItem_def)

text \<open>
  C2, as the code has it. A load never propagates an error, and it gives the empty
  sequence when the storage cannot be read, when the blob is absent or the empty text,
  and when the blob does not parse. A blob that parses is returned as parsed, whatever
  its shape.
\<close>

theorem getItemsFromStorage_fallback:
  "(\<exists>v. getItemsFromStorage key ls = Inr v)
   \<and> (\<not> available ls \<longrightarrow> getItemsFromStorage key ls = Inr (JArr []))
   \<and> (entries ls key = None \<longrightarrow> getItemsFromStorage key ls = Inr (JArr []))
   \<and> (entries ls key = Some [] \<longrightarrow> getItemsFromStorage key ls = Inr (JArr []))
   \<and> (\<forall>blob e. entries ls key = Some blob \<and> JSON_parse blob = Inl e \<longrightarrow>
         getItemsFromStorage key ls = Inr (JArr []))
   \<and> (\<forall>blob v. available ls \<and> entries ls key = Some blob \<and> blob \<noteq> []
         \<and> JSON_parse blob = Inr v \<longrightarrow> getItemsFromStorage key ls = Inr v)"
proof (intro conjI impI allI)
  show "\<exists>v. getItemsFromStorage key ls = Inr v" by (rule getItemsFromStorage_total)
  show "getItemsFromStorage key ls = Inr (JArr [])" if "\<not> available ls"
    using that
    by (simp add: getItemsFromStorage_def getItemsFromStorage_try_def localStorage_getItem_def)
  show "getItemsFromStorage key ls = Inr (JArr [])" if "entries ls key = None"
    using that
    by (simp add: getItemsFromStorage_def getItemsFromStorage_try_def localStorage_getItem_def)
  show "getItemsFromStorage key ls = Inr (JArr [])" if "entries ls key = Some []"
    using that
    by (simp add: getItemsFromStorage_def getItemsFromStorage_try_def localStorage_getItem_def)
  show "getItemsFromStorage key ls = Inr (JArr [])"
    if "entries ls key = Some blob \<and> JSON_parse blob = Inl e" for blob e
    using that
    by (simp add: getItemsFromStorage_def getItemsFromStorage_try_def localStorage_getItem_def)
  show "getItemsFromStorage key ls = Inr v"
    if "available ls \<and> entries ls key = Some blob \<and> blob \<noteq> [] \<and> JSON_parse blob = Inr v"
    for blob v
    using that by (simp add: getItemsFromStorage_parsed)
qed

lemma JSON_parse_garbage: "JSON_parse ''[1,'' = Inl SyntaxError"
  by (simp add: JSON_parse_def skip_ws_def is_ws_def parse_number_def parse_nat_def
      is_digit_def nat_of_digits_def digit_val_def)

theorem getItemsFromStorage_fallback_witness:
  "getItemsFromStorage STORAGE_KEY_MOVIES
     \<lparr>entries = Map.empty, available = False, accepts = (\<lambda>k v. True)\<rparr> = Inr (JArr [])
   \<and> getItemsFromStorage STORAGE_KEY_MOVIES
     \<lparr>entries = Map.empty, available = True, accepts = (\<lambda>k v. True)\<rparr> = Inr (JArr [])
   \<and> getItemsFromStorage STORAGE_KEY_MOVIES
     \<lparr>entries = [STORAGE_KEY_MOVIES \<mapsto> []], available = True, accepts = (\<lambda>k v. True)\<rparr>
       = Inr (JArr [])
   \<and> getItemsFromStorage STORAGE_KEY_MOVIES
     \<lparr>entries = [STORAGE_KEY_MOVIES \<mapsto> ''[1,''], available = True, accepts = (\<lambda>k v. True)\<rparr>
       = Inr (JArr [])
   \<and> getItemsFromStorage STORAGE_KEY_MOVIES
     \<lparr>entries = [STORAGE_KEY_MOVIES \<mapsto> ''{}''], available = True, accepts = (\<lambda>k v. True)\<rparr>
       = Inr (JObj [])"
  using
    getItemsFromStorage_fallback [of STORAGE_KEY_MOVIES
      "\<lparr>entries = Map.empty, available = False, accepts = (\<lambda>k v. True)\<rparr>"]
    getItemsFromStorage_fallback [of STORAGE_KEY_MOVIES
      "\<lparr>entries = Map.empty, available = True, accepts = (\<lambda>k v. True)\<rparr>"]
    getItemsFromStorage_fallback [of STORAGE_KEY_MOVIES
      "\<lparr>entries = [STORAGE_KEY_MOVIES \<mapsto> []], available = True, accepts = (\<lambda>k v. True)\<rparr>"]
    getItemsFromStorage_fallback [of STORAGE_KEY_MOVIES
      "\<lparr>entries = [STORAGE_KEY_MOVIES \<mapsto> ''[1,''], available = True, accepts = (\<lambda>k v. True)\<rparr>"]
    getItemsFromStorage_fallback [of STORAGE_KEY_MOVIES
      "\<lparr>entries = [STORAGE_KEY_MOVIES \<mapsto> ''{}''], available = True, accepts = (\<lambda>k v. True)\<rparr>"]
    JSON_parse_garbage JSON_parse_empty_object
  by simp

text \<open>
  The claim C2 as stated fails: a stored blob \<^verbatim>\<open>{}\<close> is no collection, and the load
  returns it as it is, not the empty sequence.
\<close>

theorem getItemsFromStorage_malformed_counterexample:
  "entries malformed_storage STORAGE_KEY_MOVIES = Some ''{}''
   \<and> getItemsFromStorage STORAGE_KEY_MOVIES malformed_storage = Inr (JObj [])
   \<and> getItemsFromStorage STORAGE_KEY_MOVIES malformed_storage \<noteq> Inr (JArr [])"
  by (simp add: getItemsFromStorage_def getItemsFromStorage_try_def localStorage_getItem_def
      JSON_parse_empty_object malformed_storage_def open_storage_def)

section \<open>The controller\<close>

subsection \<open>Writes through the storage service\<close>

lemma storage_keys_distinct:
  "STORAGE_KEY_MOVIES \<noteq> STORAGE_KEY_BOOKS" "STORAGE_KEY_MOVIES \<noteq> STORAGE_KEY_EVENTS"
  "STORAGE_KEY_BOOKS \<noteq> STORAGE_KEY_EVENTS" "STORAGE_KEY_BOOKS \<noteq> STORAGE_KEY_MOVIES"
  "STORAGE_KEY_EVENTS \<noteq> STORAGE_KEY_MOVIES" "STORAGE_KEY_EVENTS \<noteq> STORAGE_KEY_BOOKS"
  by (simp_all add: STORAGE_KEY_MOVIES_def STORAGE_KEY_BOOKS_def STORAGE_KEY_EVENTS_def)

lemma storage_key_inj: "storage_key ty = storage_key ty' \<longleftrightarrow> ty = ty'"
  by (cases ty; cases ty') (simp_all add: storage_keys_distinct)

lemma entries_saveItemsToStorage_other:
  "k \<noteq> key \<Longrightarrow> entries (saveItemsToStorage key items ls) k = entries ls k"
  by (simp add: saveItemsToStorage_def localStorage_setItem_def)

lemma available_saveItemsToStorage [simp]:
  "available (saveItemsToStorage key items ls) = available ls"
  by (simp add: saveItemsToStorage_def localStorage_setItem_def)

lemma accepts_saveItemsToStorage [simp]:
  "accepts (saveItemsToStorage key items ls) = accepts ls"
  by (simp add: saveItemsToStorage_def localStorage_setItem_def)

lemma load_after_save:
  assumes "available ls" and "accepts ls key (JSON_stringify items)"
  shows "getItemsFromStorage key (saveItemsToStorage key items ls) = Inr items"
proof (rule getItemsFromStorage_parsed)
  show "available (saveItemsToStorage key items ls)" using assms(1) by simp
  show "entries (saveItemsToStorage key items ls) key = Some (JSON_stringify items)"
    using assms by (simp add: saveItemsToStorage_def localStorage_setItem_def)
  show "JSON_stringify items \<noteq> []" by (rule JSON_stringify_nonempty)
  show "JSON_parse (JSON_stringify items) = Inr items" by (rule JSON_roundtrip)
qed

lemma storageService_get:
  "storageService_getMovies ls = getItemsFromStorage (storage_key movie) ls"
  "storageService_getBooks ls = getItemsFromStorage (storage_key book) ls"
  "storageService_getEvents ls = getItemsFromStorage (storage_key event) ls"
  by (simp_all add: storageService_getMovies_def storageService_getBooks_def
      storageService_getEvents_def)

lemma JSON_id_toJSON: "JSON_id (Activity_toJSON a) = Value (JStr (Activity_id a))"
  by (cases a) (simp_all add: JSON_id_def Movie_toJSON_def Book_toJSON_def Event_toJSON_def)

lemma filter_JSON_id:
  "filter (\<lambda>item. JSON_id item = Value (JStr i)) (map Activity_toJSON xs)
     = map Activity_toJSON (filter (\<lambda>x. Activity_id x = i) xs)"
  by (induction xs) (simp_all add: JSON_id_toJSON)

subsection \<open>The handlers, by category\<close>

lemma collection_simps:
  "collection movie s = map AMovie (movies s)"
  "collection book s = map ABook (books s)"
  "collection event s = map AEvent (events s)"
  by (simp_all add: collection_def)

lemma toJSON_tagged [simp]:
  "Activity_toJSON \<circ> AMovie = Movie_toJSON"
  "Activity_toJSON \<circ> ABook = Book_toJSON"
  "Activity_toJSON \<circ> AEvent = Event_toJSON"
  by (simp_all add: fun_eq_iff)

lemma filter_tagged:
  "filter P (map AMovie ms) = map AMovie (filter (\<lambda>m. P (AMovie m)) ms)"
  "filter P (map ABook bs) = map ABook (filter (\<lambda>b. P (ABook b)) bs)"
  "filter P (map AEvent es) = map AEvent (filter (\<lambda>e. P (AEvent e)) es)"
  by (simp_all add: filter_map o_def)

lemma handleDelete_collection:
  "collection ty (handleDelete True ident ty s)
     = filter (\<lambda>a. Activity_id a \<noteq> ident) (collection ty s)"
  by (cases ty) (simp_all add: handleDelete_def Let_def filter_tagged collection_simps)

lemma handleDelete_storage:
  "storage (handleDelete True ident ty s)
     = saveItemsToStorage (storage_key ty)
         (JArr (map Activity_toJSON (collection ty (handleDelete True ident ty s)))) (storage s)"
  by (cases ty)
    (simp_all add: handleDelete_def Let_def storageService_saveMovies_def
      storageService_saveBooks_def storageService_saveEvents_def collection_simps)

lemma handleDelete_other:
  "ty' \<noteq> ty \<Longrightarrow> collection ty' (handleDelete True ident ty s) = collection ty' s"
  by (cases ty; cases ty') (simp_all add: handleDelete_def Let_def collection_simps)

lemma onSave_edit:
  "editingItem s \<noteq> None \<Longrightarrow>
     collection (Activity_type a) (onSave a s)
       = map (\<lambda>x. if Activity_id x = Activity_id a then a else x)
           (collection (Activity_type a) s)"
  by (cases a)
    (simp_all add: handleSaveMovie_def handleSaveBook_def handleSaveEvent_def
      handleCloseModal_def Let_def o_def if_distrib collection_simps cong: if_cong)

lemma onSave_create:
  "editingItem s = None \<Longrightarrow>
     collection (Activity_type a) (onSave a s) = collection (Activity_type a) s @ [a]"
  by (cases a)
    (simp_all add: handleSaveMovie_def handleSaveBook_def handleSaveEvent_def
      handleCloseModal_def Let_def collection_simps)

lemma onSave_storage:
  "storage (onSave a s)
     = saveItemsToStorage (storage_key (Activity_type a))
         (JArr (map Activity_toJSON (collection (Activity_type a) (onSave a s)))) (storage s)"
  by (cases a)
    (simp_all add: handleSaveMovie_def handleSaveBook_def handleSaveEvent_def
      handleCloseModal_def Let_def storageService_saveMovies_def
      storageService_saveBooks_def storageService_saveEvents_def comp_assoc collection_simps)

lemma onSave_other:
  "ty \<noteq> Activity_type a \<Longrightarrow> collection ty (onSave a s) = collection ty s"
  by (cases a; cases ty)
    (simp_all add: handleSaveMovie_def handleSaveBook_def handleSaveEvent_def
      handleCloseModal_def Let_def collection_simps)

lemma onSave_closes: "editingItem (onSave a s) = None \<and> isModalOpen (onSave a s) = False"
  by (cases a)
    (simp_all add: handleSaveMovie_def handleSaveBook_def handleSaveEvent_def
      handleCloseModal_def Let_def)

lemma handleOpenModal_collection [simp]:
  "collection ty (handleOpenModal item s) = collection ty s"
  by (cases ty) (simp_all add: handleOpenModal_def collection_simps)

lemma handleOpenModal_fields [simp]:
  "editingItem (handleOpenModal item s) = item"
  "storage (handleOpenModal item s) = storage s"
  by (simp_all add: handleOpenModal_def)

subsection \<open>The example data\<close>

lemma example_app_simps [simp]:
  "movies example_app = [dune]" "books example_app = [emma]" "events example_app = [recital]"
  "currentView example_app = movie" "isModalOpen example_app = False"
  "editingItem example_app = None" "storage example_app = open_storage"
  by (simp_all add: example_app_def)

lemma example_collections [simp]:
  "collection movie example_app = [AMovie dune]"
  "collection book example_app = [ABook emma]"
  "collection event example_app = [AEvent recital]"
  by (simp_all add: collection_simps)

lemma open_storage_simps [simp]:
  "entries open_storage = Map.empty" "available open_storage" "accepts open_storage k v"
  by (simp_all add: open_storage_def)

lemma example_ids [simp]:
  "id' dune = ''7f9c''" "id' dune_edited = ''7f9c''" "id' alien = ''a11e''"
  "id' emma = ''b00c''" "id' recital = ''e7e7''"
  by (simp_all add: dune_def dune_edited_def alien_def emma_def recital_def)

subsection \<open>Delete\<close>

lemma length_filter_one:
  "length (filter (\<lambda>a. f a = i) xs) = 1 \<Longrightarrow> Suc (length (filter (\<lambda>a. f a \<noteq> i) xs)) = length xs"
  using sum_length_filter_compl [of "\<lambda>a. f a = i" xs] by simp

text \<open>
  C3. A delete that the user declines changes nothing, in memory or in storage. A
  confirmed delete leaves the category's collection without the records of the given
  identifier, one shorter when exactly one record had it, and writes that collection
  through the storage service under the category's key; when the storage takes the
  write, a load gives it back.
\<close>

theorem handleDelete_confirmed:
  "handleDelete False ident ty s = s
   \<and> collection ty (handleDelete True ident ty s)
       = filter (\<lambda>a. Activity_id a \<noteq> ident) (collection ty s)
   \<and> ident \<notin> Activity_id ` set (collection ty (handleDelete True ident ty s))
   \<and> (length (filter (\<lambda>a. Activity_id a = ident) (collection ty s)) = 1 \<longrightarrow>
        Suc (length (collection ty (handleDelete True ident ty s))) = length (collection ty s))
   \<and> storage (handleDelete True ident ty s)
       = saveItemsToStorage (storage_key ty)
           (JArr (map Activity_toJSON (collection ty (handleDelete True ident ty s))))
           (storage s)
   \<and> (available (storage s)
        \<and> accepts (storage s) (storage_key ty)
            (JSON_stringify
               (JArr (map Activity_toJSON (collection ty (handleDelete True ident ty s)))))
        \<longrightarrow> getItemsFromStorage (storage_key ty) (storage (handleDelete True ident ty s))
              = Inr (JArr (map Activity_toJSON (collection ty (handleDelete True ident ty s)))))"
proof (intro conjI impI)
  show "handleDelete False ident ty s = s" by (simp add: handleDelete_def)
  show "collection ty (handleDelete True ident ty s)
      = filter (\<lambda>a. Activity_id a \<noteq> ident) (collection ty s)"
    by (rule handleDelete_collection)
  show "ident \<notin> Activity_id ` set (collection ty (handleDelete True ident ty s))"
    by (auto simp: handleDelete_collection)
  show "Suc (length (collection ty (handleDelete True ident ty s))) = length (collection ty s)"
    if "length (filter (\<lambda>a. Activity_id a = ident) (collection ty s)) = 1"
    using that by (simp only: handleDelete_collection length_filter_one)
  show "storage (handleDelete True ident ty s)
      = saveItemsToStorage (storage_key ty)
          (JArr (map Activity_toJSON (collection ty (handleDelete True ident ty s))))
          (storage s)"
    by (rule handleDelete_storage)
  show "getItemsFromStorage (storage_key ty) (storage (handleDelete True ident ty s))
      = Inr (JArr (map Activity_toJSON (collection ty (handleDelete True ident ty s))))"
    if "available (storage s)
        \<and> accepts (storage s) (storage_key ty)
            (JSON_stringify
               (JArr (map Activity_toJSON (collection ty (handleDelete True ident ty s)))))"
    using that by (subst handleDelete_storage) (simp only: load_after_save)
qed

theorem handleDelete_confirmed_witness:
  "length (filter (\<lambda>a. Activity_id a = ''7f9c'') (collection movie example_app)) = 1
   \<and> handleDelete False ''7f9c'' movie example_app = example_app
   \<and> collection movie (handleDelete True ''7f9c'' movie example_app) = []
   \<and> Suc (length (collection movie (handleDelete True ''7f9c'' movie example_app)))
       = length (collection movie example_app)
   \<and> getItemsFromStorage STORAGE_KEY_MOVIES
        (storage (handleDelete True ''7f9c'' movie example_app)) = Inr (JArr [])"
proof -
  let ?s' = "handleDelete True ''7f9c'' movie example_app"
  note h = handleDelete_confirmed [of "''7f9c''" movie example_app]
  have one: "length (filter (\<lambda>a. Activity_id a = ''7f9c'') (collection movie example_app)) = 1"
    by simp
  from h have declined: "handleDelete False ''7f9c'' movie example_app = example_app"
    by blast
  from h have "collection movie ?s'
      = filter (\<lambda>a. Activity_id a \<noteq> ''7f9c'') (collection movie example_app)"
    by blast
  then have gone: "collection movie ?s' = []" by simp
  from h one have shorter: "Suc (length (collection movie ?s')) = length (collection movie example_app)"
    by blast
  have "available (storage example_app)
      \<and> accepts (storage example_app) (storage_key movie)
          (JSON_stringify (JArr (map Activity_toJSON (collection movie ?s'))))"
    by simp
  with h have "getItemsFromStorage (storage_key movie) (storage ?s')
      = Inr (JArr (map Activity_toJSON (collection movie ?s')))"
    by blast
  then have load: "getItemsFromStorage STORAGE_KEY_MOVIES (storage ?s') = Inr (JArr [])"
    unfolding gone by simp
  from one declined gone shorter load show ?thesis by blast
qed

subsection \<open>Save\<close>

lemma replace_unique:
  assumes "distinct (map f xs)" and "f a \<in> f ` set xs"
  shows "filter (\<lambda>x. f x = f a) (map (\<lambda>x. if f x = f a then a else x) xs) = [a]"
  using assms
proof (induction xs)
  case Nil
  then show ?case by simp
next
  case (Cons x xs)
  show ?case
  proof (cases "f x = f a")
    case True
    then have "f a \<notin> f ` set xs" using Cons.prems(1) by simp
    then have "filter (\<lambda>x. f x = f a) (map (\<lambda>x. if f x = f a then a else x) xs) = []"
      by (force simp: filter_empty_conv image_iff)
    with True show ?thesis by simp
  next
    case False
    with Cons show ?thesis by auto
  qed
qed

lemma append_unique:
  assumes "f a \<notin> f ` set xs"
  shows "filter (\<lambda>x. f x = f a) (xs @ [a]) = [a]"
  using assms by (force simp: filter_empty_conv image_iff)

text \<open>
  C1, as the code has it. A save replaces the records that carry the item's identifier
  when the controller has an item open for editing, and appends the item when it has
  none; the collection keeps its length in the first case. The resulting collection is
  written through the storage service under the category's key. When the identifiers of
  the collection are distinct, and an item is open for editing exactly when the item's
  identifier is in the collection, the result holds exactly one record of that
  identifier, the item; when the storage takes the write, a load gives the resulting
  collection back, with exactly one record of that identifier, the item, in it.
\<close>

theorem onSave_upsert:
  "(editingItem s \<noteq> None \<longrightarrow>
      collection (Activity_type a) (onSave a s)
        = map (\<lambda>x. if Activity_id x = Activity_id a then a else x)
            (collection (Activity_type a) s)
      \<and> length (collection (Activity_type a) (onSave a s))
          = length (collection (Activity_type a) s))
   \<and> (editingItem s = None \<longrightarrow>
        collection (Activity_type a) (onSave a s) = collection (Activity_type a) s @ [a])
   \<and> storage (onSave a s)
       = saveItemsToStorage (storage_key (Activity_type a))
           (JArr (map Activity_toJSON (collection (Activity_type a) (onSave a s))))
           (storage s)
   \<and> (distinct (map Activity_id (collection (Activity_type a) s))
        \<and> (editingItem s \<noteq> None
             \<longleftrightarrow> Activity_id a \<in> Activity_id ` set (collection (Activity_type a) s))
        \<longrightarrow> filter (\<lambda>x. Activity_id x = Activity_id a)
               (collection (Activity_type a) (onSave a s)) = [a])
   \<and> (available (storage s)
        \<and> accepts (storage s) (storage_key (Activity_type a))
            (JSON_stringify
               (JArr (map Activity_toJSON (collection (Activity_type a) (onSave a s)))))
        \<longrightarrow> getItemsFromStorage (storage_key (Activity_type a)) (storage (onSave a s))
              = Inr (JArr (map Activity_toJSON (collection (Activity_type a) (onSave a s)))))
   \<and> (distinct (map Activity_id (collection (Activity_type a) s))
        \<and> (editingItem s \<noteq> None
             \<longleftrightarrow> Activity_id a \<in> Activity_id ` set (collection (Activity_type a) s))
        \<and> available (storage s)
        \<and> accepts (storage s) (storage_key (Activity_type a))
            (JSON_stringify
               (JArr (map Activity_toJSON (collection (Activity_type a) (onSave a s)))))
        \<longrightarrow> (\<exists>items.
              getItemsFromStorage (storage_key (Activity_type a)) (storage (onSave a s))
                = Inr (JArr items)
              \<and> filter (\<lambda>item. JSON_id item = Value (JStr (Activity_id a))) items
                  = [Activity_toJSON a]))"
proof -
  let ?ty = "Activity_type a"
  let ?new = "collection ?ty (onSave a s)"
  have edit: "?new = map (\<lambda>x. if Activity_id x = Activity_id a then a else x) (collection ?ty s)"
    if "editingItem s \<noteq> None"
    using that by (rule onSave_edit)
  have create: "?new = collection ?ty s @ [a]" if "editingItem s = None"
    using that by (rule onSave_create)
  have one: "filter (\<lambda>x. Activity_id x = Activity_id a) ?new = [a]"
    if h: "distinct (map Activity_id (collection ?ty s))
        \<and> (editingItem s \<noteq> None \<longleftrightarrow> Activity_id a \<in> Activity_id ` set (collection ?ty s))"
  proof (cases "editingItem s = None")
    case True
    with h have "Activity_id a \<notin> Activity_id ` set (collection ?ty s)"
      by blast
    then show ?thesis
      unfolding create [OF True] by (rule append_unique)
  next
    case False
    with h have "distinct (map Activity_id (collection ?ty s))"
      and "Activity_id a \<in> Activity_id ` set (collection ?ty s)"
      by blast+
    then show ?thesis
      unfolding edit [OF False] by (rule replace_unique)
  qed
  have load: "getItemsFromStorage (storage_key ?ty) (storage (onSave a s))
      = Inr (JArr (map Activity_toJSON ?new))"
    if "available (storage s)
        \<and> accepts (storage s) (storage_key ?ty) (JSON_stringify (JArr (map Activity_toJSON ?new)))"
    using that by (subst onSave_storage) (simp only: load_after_save)
  have loaded: "\<exists>items.
      getItemsFromStorage (storage_key ?ty) (storage (onSave a s)) = Inr (JArr items)
      \<and> filter (\<lambda>item. JSON_id item = Value (JStr (Activity_id a))) items = [Activity_toJSON a]"
    if h: "distinct (map Activity_id (collection ?ty s))
        \<and> (editingItem s \<noteq> None \<longleftrightarrow> Activity_id a \<in> Activity_id ` set (collection ?ty s))
        \<and> available (storage s)
        \<and> accepts (storage s) (storage_key ?ty) (JSON_stringify (JArr (map Activity_toJSON ?new)))"
  proof (intro exI conjI)
    from h show "getItemsFromStorage (storage_key ?ty) (storage (onSave a s))
        = Inr (JArr (map Activity_toJSON ?new))"
      by (intro load) blast
    from h have "filter (\<lambda>x. Activity_id x = Activity_id a) ?new = [a]"
      by (intro one) blast
    then show "filter (\<lambda>item. JSON_id item = Value (JStr (Activity_id a)))
        (map Activity_toJSON ?new) = [Activity_toJSON a]"
      by (simp only: filter_JSON_id list.map)
  qed
  show ?thesis
  proof (intro conjI impI)
    show "?new = map (\<lambda>x. if Activity_id x = Activity_id a then a else x) (collection ?ty s)"
      if "editingItem s \<noteq> None"
      using that by (rule edit)
    show "length ?new = length (collection ?ty s)" if "editingItem s \<noteq> None"
      using that by (simp add: edit)
    show "?new = collection ?ty s @ [a]" if "editingItem s = None"
      using that by (rule create)
    show "storage (onSave a s)
        = saveItemsToStorage (storage_key ?ty) (JArr (map Activity_toJSON ?new)) (storage s)"
      by (rule onSave_storage)
    show "filter (\<lambda>x. Activity_id x = Activity_id a) ?new = [a]"
      if "distinct (map Activity_id (collection ?ty s))
          \<and> (editingItem s \<noteq> None
               \<longleftrightarrow> Activity_id a \<in> Activity_id ` set (collection ?ty s))"
      using that by (rule one)
    show "getItemsFromStorage (storage_key ?ty) (storage (onSave a s))
        = Inr (JArr (map Activity_toJSON ?new))"
      if "available (storage s)
          \<and> accepts (storage s) (storage_key ?ty)
              (JSON_stringify (JArr (map Activity_toJSON ?new)))"
      using that by (rule load)
    show "\<exists>items.
        getItemsFromStorage (storage_key ?ty) (storage (onSave a s)) = Inr (JArr items)
        \<and> filter (\<lambda>item. JSON_id item = Value (JStr (Activity_id a))) items
            = [Activity_toJSON a]"
      if "distinct (map Activity_id (collection ?ty s))
          \<and> (editingItem s \<noteq> None
               \<longleftrightarrow> Activity_id a \<in> Activity_id ` set (collection ?ty s))
          \<and> available (storage s)
          \<and> accepts (storage s) (storage_key ?ty)
              (JSON_stringify (JArr (map Activity_toJSON ?new)))"
      using that by (rule loaded)
  qed
qed

theorem onSave_upsert_witness:
  "collection movie (onSave (AMovie dune_edited)
       (handleOpenModal (Some (AMovie dune)) example_app)) = [AMovie dune_edited]
   \<and> getItemsFromStorage STORAGE_KEY_MOVIES
       (storage (onSave (AMovie dune_edited)
          (handleOpenModal (Some (AMovie dune)) example_app)))
       = Inr (JArr [Movie_toJSON dune_edited])
   \<and> collection movie (onSave (AMovie alien) example_app) = [AMovie dune, AMovie alien]
   \<and> filter (\<lambda>x. Activity_id x = ''a11e'') (collection movie (onSave (AMovie alien) example_app))
       = [AMovie alien]
   \<and> getItemsFromStorage STORAGE_KEY_MOVIES (storage (onSave (AMovie alien) example_app))
       = Inr (JArr [Movie_toJSON dune, Movie_toJSON alien])"
proof -
  let ?e = "handleOpenModal (Some (AMovie dune)) example_app"
  note edit = onSave_upsert [of ?e "AMovie dune_edited"]
  note new = onSave_upsert [of example_app "AMovie alien"]
  have "editingItem ?e \<noteq> None" by simp
  with edit have "collection (Activity_type (AMovie dune_edited)) (onSave (AMovie dune_edited) ?e)
      = map (\<lambda>x. if Activity_id x = Activity_id (AMovie dune_edited) then AMovie dune_edited else x)
          (collection (Activity_type (AMovie dune_edited)) ?e)"
    by blast
  then have 1: "collection movie (onSave (AMovie dune_edited) ?e) = [AMovie dune_edited]"
    by simp
  have "available (storage ?e)
      \<and> accepts (storage ?e) (storage_key (Activity_type (AMovie dune_edited)))
          (JSON_stringify (JArr (map Activity_toJSON
             (collection (Activity_type (AMovie dune_edited)) (onSave (AMovie dune_edited) ?e)))))"
    by simp
  with edit have "getItemsFromStorage (storage_key (Activity_type (AMovie dune_edited)))
      (storage (onSave (AMovie dune_edited) ?e))
      = Inr (JArr (map Activity_toJSON
          (collection (Activity_type (AMovie dune_edited)) (onSave (AMovie dune_edited) ?e))))"
    by blast
  then have 2: "getItemsFromStorage STORAGE_KEY_MOVIES (storage (onSave (AMovie dune_edited) ?e))
      = Inr (JArr [Movie_toJSON dune_edited])"
    using 1 by simp
  have none: "editingItem example_app = None" by simp
  with new have "collection (Activity_type (AMovie alien)) (onSave (AMovie alien) example_app)
      = collection (Activity_type (AMovie alien)) example_app @ [AMovie alien]"
    by blast
  then have 3: "collection movie (onSave (AMovie alien) example_app) = [AMovie dune, AMovie alien]"
    by simp
  have "distinct (map Activity_id (collection (Activity_type (AMovie alien)) example_app))
      \<and> (editingItem example_app \<noteq> None
           \<longleftrightarrow> Activity_id (AMovie alien)
               \<in> Activity_id ` set (collection (Activity_type (AMovie alien)) example_app))"
    by simp
  with new have "filter (\<lambda>x. Activity_id x = Activity_id (AMovie alien))
      (collection (Activity_type (AMovie alien)) (onSave (AMovie alien) example_app))
      = [AMovie alien]"
    by blast
  then have 4: "filter (\<lambda>x. Activity_id x = ''a11e'')
      (collection movie (onSave (AMovie alien) example_app)) = [AMovie alien]"
    by simp
  have "available (storage example_app)
      \<and> accepts (storage example_app) (storage_key (Activity_type (AMovie alien)))
          (JSON_stringify (JArr (map Activity_toJSON
             (collection (Activity_type (AMovie alien)) (onSave (AMovie alien) example_app)))))"
    by simp
  with new have "getItemsFromStorage (storage_key (Activity_type (AMovie alien)))
      (storage (onSave (AMovie alien) example_app))
      = Inr (JArr (map Activity_toJSON
          (collection (Activity_type (AMovie alien)) (onSave (AMovie alien) example_app))))"
    by blast
  then have 5: "getItemsFromStorage STORAGE_KEY_MOVIES (storage (onSave (AMovie alien) example_app))
      = Inr (JArr [Movie_toJSON dune, Movie_toJSON alien])"
    using 3 by simp
  from 1 2 3 4 5 show ?thesis by blast
qed

text \<open>
  The claim C1 as stated fails. The user opens the movie for editing, deletes it from its
  card while the form is open, and submits the form. No record in the collection has the
  submitted identifier, yet the item is not appended: the save maps over the collection,
  because an item is open for editing. Nothing with that identifier is in memory or in
  storage afterwards.
\<close>

theorem onSave_upsert_counterexample:
  "element_of (MovieForm (Some dune) dune_edited)
     = snd (getModalContent
         (handleDelete True ''7f9c'' movie (handleOpenModal (Some (AMovie dune)) example_app)))
   \<and> Activity_id (finalData (MovieForm (Some dune) dune_edited) 0)
       \<notin> Activity_id ` set (collection movie
           (handleDelete True ''7f9c'' movie (handleOpenModal (Some (AMovie dune)) example_app)))
   \<and> collection movie
       (handleSubmit (MovieForm (Some dune) dune_edited) 0
          (handleDelete True ''7f9c'' movie (handleOpenModal (Some (AMovie dune)) example_app)))
       \<noteq> collection movie
           (handleDelete True ''7f9c'' movie (handleOpenModal (Some (AMovie dune)) example_app))
         @ [finalData (MovieForm (Some dune) dune_edited) 0]
   \<and> collection movie
       (handleSubmit (MovieForm (Some dune) dune_edited) 0
          (handleDelete True ''7f9c'' movie (handleOpenModal (Some (AMovie dune)) example_app)))
       = []
   \<and> getItemsFromStorage STORAGE_KEY_MOVIES
       (storage
          (handleSubmit (MovieForm (Some dune) dune_edited) 0
             (handleDelete True ''7f9c'' movie
                (handleOpenModal (Some (AMovie dune)) example_app))))
       = Inr (JArr [])"
proof -
  let ?s1 = "handleDelete True ''7f9c'' movie (handleOpenModal (Some (AMovie dune)) example_app)"
  let ?f = "MovieForm (Some dune) dune_edited"
  have edit: "editingItem ?s1 = Some (AMovie dune)"
    by (simp add: handleDelete_def handleOpenModal_def Let_def)
  have sto: "storage ?s1 = saveItemsToStorage STORAGE_KEY_MOVIES (JArr []) open_storage"
    by (simp add: handleDelete_def handleOpenModal_def Let_def storageService_saveMovies_def)
  have gone: "collection movie ?s1 = []"
    by (simp add: handleDelete_collection)
  have item: "finalData ?f 0 = AMovie dune_edited"
    by (simp add: MovieForm_handleSubmit_def dune_edited_def dune_def)
  have 1: "element_of ?f = snd (getModalContent ?s1)"
    by (simp add: getModalContent_def edit as_Movie_def)
  have 2: "Activity_id (finalData ?f 0) \<notin> Activity_id ` set (collection movie ?s1)"
    by (simp add: gone)
  have "editingItem ?s1 \<noteq> None" by (simp add: edit)
  then have "collection (Activity_type (AMovie dune_edited)) (onSave (AMovie dune_edited) ?s1)
      = map (\<lambda>x. if Activity_id x = Activity_id (AMovie dune_edited) then AMovie dune_edited else x)
          (collection (Activity_type (AMovie dune_edited)) ?s1)"
    by (rule onSave_edit)
  then have saved: "collection movie (onSave (AMovie dune_edited) ?s1) = []"
    by (simp add: gone)
  have sub: "handleSubmit ?f 0 ?s1 = onSave (AMovie dune_edited) ?s1"
    unfolding handleSubmit_def item ..
  have 4: "collection movie (handleSubmit ?f 0 ?s1) = []"
    unfolding sub by (rule saved)
  have 3: "collection movie (handleSubmit ?f 0 ?s1) \<noteq> collection movie ?s1 @ [finalData ?f 0]"
    unfolding 4 by simp
  have "storage (onSave (AMovie dune_edited) ?s1)
      = saveItemsToStorage STORAGE_KEY_MOVIES (JArr [])
          (saveItemsToStorage STORAGE_KEY_MOVIES (JArr []) open_storage)"
    using onSave_storage [of "AMovie dune_edited" ?s1] saved
    by (simp add: sto)
  then have 5: "getItemsFromStorage STORAGE_KEY_MOVIES (storage (handleSubmit ?f 0 ?s1))
      = Inr (JArr [])"
    unfolding sub by (simp add: load_after_save)
  from 1 2 3 4 5 show ?thesis by blast
qed

subsection \<open>Frame\<close>

text \<open>
  C9. A save (\<open>onSave\<close> is the save handler of the item's category) and a confirmed
  delete leave the collections of the other categories as they were, write to storage
  through the service under the category's own key, and leave every other stored blob as
  it was.
\<close>

theorem mutation_framed:
  "(\<forall>ty. ty \<noteq> Activity_type a \<longrightarrow> collection ty (onSave a s) = collection ty s)
   \<and> storage (onSave a s)
       = saveItemsToStorage (storage_key (Activity_type a))
           (JArr (map Activity_toJSON (collection (Activity_type a) (onSave a s))))
           (storage s)
   \<and> (\<forall>k. k \<noteq> storage_key (Activity_type a) \<longrightarrow>
         entries (storage (onSave a s)) k = entries (storage s) k)
   \<and> (\<forall>ty'. ty' \<noteq> ty \<longrightarrow>
         collection ty' (handleDelete True ident ty s) = collection ty' s)
   \<and> storage (handleDelete True ident ty s)
       = saveItemsToStorage (storage_key ty)
           (JArr (map Activity_toJSON (collection ty (handleDelete True ident ty s))))
           (storage s)
   \<and> (\<forall>k. k \<noteq> storage_key ty \<longrightarrow>
         entries (storage (handleDelete True ident ty s)) k = entries (storage s) k)"
proof (intro conjI allI impI)
  show "collection ty (onSave a s) = collection ty s" if "ty \<noteq> Activity_type a" for ty
    using that by (rule onSave_other)
  show "storage (onSave a s)
      = saveItemsToStorage (storage_key (Activity_type a))
          (JArr (map Activity_toJSON (collection (Activity_type a) (onSave a s))))
          (storage s)"
    by (rule onSave_storage)
  show "entries (storage (onSave a s)) k = entries (storage s) k"
    if "k \<noteq> storage_key (Activity_type a)" for k
    using that by (subst onSave_storage) (rule entries_saveItemsToStorage_other)
  show "collection ty' (handleDelete True ident ty s) = collection ty' s" if "ty' \<noteq> ty" for ty'
    using that by (rule handleDelete_other)
  show "storage (handleDelete True ident ty s)
      = saveItemsToStorage (storage_key ty)
          (JArr (map Activity_toJSON (collection ty (handleDelete True ident ty s))))
          (storage s)"
    by (rule handleDelete_storage)
  show "entries (storage (handleDelete True ident ty s)) k = entries (storage s) k"
    if "k \<noteq> storage_key ty" for k
    using that by (subst handleDelete_storage) (rule entries_saveItemsToStorage_other)
qed

theorem mutation_framed_witness:
  "collection book (handleSaveMovie alien example_app) = [ABook emma]
   \<and> collection event (handleSaveMovie alien example_app) = [AEvent recital]
   \<and> entries (storage (handleSaveMovie alien example_app)) STORAGE_KEY_BOOKS = None
   \<and> entries (storage (handleSaveMovie alien example_app)) STORAGE_KEY_EVENTS = None
   \<and> collection movie (handleDelete True ''b00c'' book example_app) = [AMovie dune]
   \<and> collection event (handleDelete True ''b00c'' book example_app) = [AEvent recital]
   \<and> entries (storage (handleDelete True ''b00c'' book example_app)) STORAGE_KEY_MOVIES = None
   \<and> entries (storage (handleDelete True ''b00c'' book example_app)) STORAGE_KEY_EVENTS = None"
proof -
  note h = mutation_framed [of "AMovie alien" example_app book "''b00c''"]
  have k: "STORAGE_KEY_BOOKS \<noteq> storage_key (Activity_type (AMovie alien))"
    "STORAGE_KEY_EVENTS \<noteq> storage_key (Activity_type (AMovie alien))"
    "STORAGE_KEY_MOVIES \<noteq> storage_key book" "STORAGE_KEY_EVENTS \<noteq> storage_key book"
    by (simp_all add: storage_keys_distinct)
  have t: "book \<noteq> Activity_type (AMovie alien)" "event \<noteq> Activity_type (AMovie alien)"
    "movie \<noteq> book" "event \<noteq> book"
    by simp_all
  from h t have c: "collection book (onSave (AMovie alien) example_app) = collection book example_app"
    "collection event (onSave (AMovie alien) example_app) = collection event example_app"
    "collection movie (handleDelete True ''b00c'' book example_app) = collection movie example_app"
    "collection event (handleDelete True ''b00c'' book example_app) = collection event example_app"
    by blast+
  from h k have e: "entries (storage (onSave (AMovie alien) example_app)) STORAGE_KEY_BOOKS
      = entries (storage example_app) STORAGE_KEY_BOOKS"
    "entries (storage (onSave (AMovie alien) example_app)) STORAGE_KEY_EVENTS
      = entries (storage example_app) STORAGE_KEY_EVENTS"
    "entries (storage (handleDelete True ''b00c'' book example_app)) STORAGE_KEY_MOVIES
      = entries (storage example_app) STORAGE_KEY_MOVIES"
    "entries (storage (handleDelete True ''b00c'' book example_app)) STORAGE_KEY_EVENTS
      = entries (storage example_app) STORAGE_KEY_EVENTS"
    by blast+
  from c e show ?thesis by simp
qed

subsection \<open>Identity of an item\<close>

lemma crypto_randomUUID_nonempty: "crypto_randomUUID r \<noteq> []"
  by (simp add: crypto_randomUUID_def)

lemma finalData_type:
  "element_of f = snd (getModalContent s) \<Longrightarrow>
     Activity_type (finalData f r)
       = (case editingItem s of Some a \<Rightarrow> Activity_type a | None \<Rightarrow> currentView s)"
  by (cases f; cases "editingItem s"; cases "currentView s")
    (auto simp: getModalContent_def Let_def split: ActivityType.splits)

lemma finalData_id_created:
  "editingItem s = None \<Longrightarrow> element_of f = snd (getModalContent s) \<Longrightarrow>
     Activity_id (finalData f r) = crypto_randomUUID r"
  by (cases f; cases "currentView s")
    (auto simp: getModalContent_def Let_def as_Movie_def as_Book_def as_Event_def
      MovieForm_handleSubmit_def BookForm_handleSubmit_def EventForm_handleSubmit_def)

lemma finalData_id_edited:
  "editingItem s = Some a \<Longrightarrow> element_of f = snd (getModalContent s) \<Longrightarrow>
     Activity_id a \<noteq> [] \<Longrightarrow> Activity_id (finalData f r) = Activity_id a"
  by (cases f; cases a)
    (auto simp: getModalContent_def Let_def as_Movie_def as_Book_def as_Event_def
      MovieForm_handleSubmit_def BookForm_handleSubmit_def EventForm_handleSubmit_def)

text \<open>
  C7. Every version of an item carries the identifier that was generated when the item
  was created, and the category tag it was created with: an edit-submit hands on the
  identifier and the tag of the item being edited.
\<close>

theorem version_identity:
  "version r ty a \<Longrightarrow> Activity_id a = crypto_randomUUID r \<and> Activity_type a = ty"
proof (induction rule: version.induct)
  case (created s f r)
  then show ?case by (simp add: finalData_id_created finalData_type)
next
  case (edited r ty a s f r')
  then have "Activity_id a \<noteq> []" by (simp add: crypto_randomUUID_nonempty)
  with edited show ?case by (simp add: finalData_id_edited finalData_type)
qed

theorem version_identity_witness:
  "version 7 movie (finalData (MovieForm (Some (dune\<lparr>id' := crypto_randomUUID 7\<rparr>)) dune_edited) 9)
   \<and> Activity_id
        (finalData (MovieForm (Some (dune\<lparr>id' := crypto_randomUUID 7\<rparr>)) dune_edited) 9)
       = crypto_randomUUID 7
   \<and> Activity_type
        (finalData (MovieForm (Some (dune\<lparr>id' := crypto_randomUUID 7\<rparr>)) dune_edited) 9)
       = movie"
proof -
  let ?a0 = "AMovie (dune\<lparr>id' := crypto_randomUUID 7\<rparr>)"
  let ?f = "MovieForm (Some (dune\<lparr>id' := crypto_randomUUID 7\<rparr>)) dune_edited"
  have "version 7 (currentView example_app) (finalData (MovieForm None dune) 7)"
    by (rule version.created) (simp_all add: getModalContent_def as_Movie_def)
  then have v0: "version 7 movie ?a0"
    by (simp add: MovieForm_handleSubmit_def)
  have "version 7 movie (finalData ?f 9)"
    by (rule version.edited [OF v0, of "handleOpenModal (Some ?a0) example_app"])
      (simp_all add: getModalContent_def as_Movie_def handleOpenModal_def)
  with version_identity [of 7 movie "finalData ?f 9"] show ?thesis by simp
qed

subsection \<open>Saving twice\<close>

lemma onSave_edit_again:
  assumes "editingItem s \<noteq> None" and "editingItem s' \<noteq> None"
    and "collection (Activity_type a) s' = collection (Activity_type a) (onSave a s)"
  shows "collection (Activity_type a) (onSave a s') = collection (Activity_type a) (onSave a s)"
proof -
  let ?r = "\<lambda>x. if Activity_id x = Activity_id a then a else x"
  have "collection (Activity_type a) (onSave a s')
      = map ?r (collection (Activity_type a) (onSave a s))"
    using assms(2,3) by (simp add: onSave_edit)
  also have "\<dots> = map ?r (map ?r (collection (Activity_type a) s))"
    using assms(1) by (simp add: onSave_edit)
  also have "\<dots> = map ?r (collection (Activity_type a) s)"
    by (induction "collection (Activity_type a) s") auto
  also have "\<dots> = collection (Activity_type a) (onSave a s)"
    using assms(1) by (simp add: onSave_edit)
  finally show ?thesis .
qed

lemma saveItemsToStorage_again:
  "saveItemsToStorage key items (saveItemsToStorage key items ls)
     = saveItemsToStorage key items ls"
  by (simp add: saveItemsToStorage_def localStorage_setItem_def)

lemma length_hex_digits: "length (hex_digits k n) = k"
  by (induction k arbitrary: n) simp_all

lemma length_crypto_randomUUID: "length (crypto_randomUUID r) = 36"
  by (simp add: crypto_randomUUID_def length_hex_digits)

text \<open>
  C6. A form is submitted whose item carries an identifier that is already in the item's
  collection; identifiers that the random source yields are new to the collection. The
  form is opened again, for any item or none, and submitted with the same content. The
  collection is then as the first save left it, at the size it had before the first
  save, and so is the storage.
\<close>

theorem handleSubmit_idempotent:
  assumes rendered: "element_of f = snd (getModalContent s)"
    and existing: "Activity_id (finalData f r)
        \<in> Activity_id ` set (collection (Activity_type (finalData f r)) s)"
    and fresh: "crypto_randomUUID r
        \<notin> Activity_id ` set (collection (Activity_type (finalData f r)) s)"
    and rendered': "element_of f' = snd (getModalContent (handleOpenModal item (handleSubmit f r s)))"
    and same: "finalData f' r' = finalData f r"
    and fresh': "crypto_randomUUID r'
        \<notin> Activity_id ` set (collection (Activity_type (finalData f r)) (handleSubmit f r s))"
  shows "collection (Activity_type (finalData f r))
           (handleSubmit f' r' (handleOpenModal item (handleSubmit f r s)))
         = collection (Activity_type (finalData f r)) (handleSubmit f r s)
       \<and> length (collection (Activity_type (finalData f r)) (handleSubmit f r s))
         = length (collection (Activity_type (finalData f r)) s)
       \<and> storage (handleSubmit f' r' (handleOpenModal item (handleSubmit f r s)))
         = storage (handleSubmit f r s)"
proof -
  let ?a = "finalData f r"
  let ?ty = "Activity_type ?a"
  let ?s1 = "handleSubmit f r s"
  let ?s1' = "handleOpenModal item ?s1"
  have e: "editingItem s \<noteq> None"
  proof
    assume "editingItem s = None"
    then have "Activity_id ?a = crypto_randomUUID r"
      using rendered by (rule finalData_id_created)
    with existing fresh show False by simp
  qed
  have once: "collection ?ty ?s1
      = map (\<lambda>x. if Activity_id x = Activity_id ?a then ?a else x) (collection ?ty s)"
    unfolding handleSubmit_def using e by (rule onSave_edit)
  then have len: "length (collection ?ty ?s1) = length (collection ?ty s)" by simp
  have held: "Activity_id ?a \<in> Activity_id ` set (collection ?ty ?s1)"
  proof -
    from existing obtain x
      where "x \<in> set (collection ?ty s)" and "Activity_id x = Activity_id ?a"
      by auto
    then have "?a \<in> set (collection ?ty ?s1)"
      unfolding once by force
    then show ?thesis by (rule imageI)
  qed
  have e': "editingItem ?s1' \<noteq> None"
  proof
    assume "editingItem ?s1' = None"
    then have "Activity_id (finalData f' r') = crypto_randomUUID r'"
      using rendered' by (rule finalData_id_created)
    with held fresh' same show False by simp
  qed
  have c: "collection ?ty ?s1' = collection ?ty (onSave ?a s)"
    by (simp add: handleSubmit_def)
  have twice: "handleSubmit f' r' ?s1' = onSave ?a ?s1'"
    by (simp add: handleSubmit_def same)
  have coll: "collection ?ty (handleSubmit f' r' ?s1') = collection ?ty ?s1"
    unfolding twice using onSave_edit_again [OF e e' c] by (simp add: handleSubmit_def)
  let ?items = "JArr (map Activity_toJSON (collection ?ty ?s1))"
  have st1: "storage ?s1 = saveItemsToStorage (storage_key ?ty) ?items (storage s)"
    unfolding handleSubmit_def by (rule onSave_storage)
  have "storage (handleSubmit f' r' ?s1')
      = saveItemsToStorage (storage_key ?ty)
          (JArr (map Activity_toJSON (collection ?ty (handleSubmit f' r' ?s1'))))
          (storage ?s1')"
    unfolding twice by (rule onSave_storage)
  also have "\<dots> = saveItemsToStorage (storage_key ?ty) ?items (storage ?s1)"
    by (simp add: coll)
  also have "\<dots> = saveItemsToStorage (storage_key ?ty) ?items
      (saveItemsToStorage (storage_key ?ty) ?items (storage s))"
    using st1 by simp
  also have "\<dots> = saveItemsToStorage (storage_key ?ty) ?items (storage s)"
    by (rule saveItemsToStorage_again)
  also have "\<dots> = storage ?s1"
    using st1 by simp
  finally have "storage (handleSubmit f' r' ?s1') = storage ?s1" .
  with coll len show ?thesis by blast
qed

lemma crypto_randomUUID_example: "crypto_randomUUID r \<noteq> ''7f9c''"
proof
  assume "crypto_randomUUID r = ''7f9c''"
  then have "length (crypto_randomUUID r) = length ''7f9c''" by (rule arg_cong)
  then show False by (simp add: length_crypto_randomUUID)
qed

lemma finalData_example:
  "finalData (MovieForm (Some dune) dune_edited) r = AMovie dune_edited"
  "finalData (MovieForm (Some dune_edited) dune_edited) r = AMovie dune_edited"
  by (simp_all add: MovieForm_handleSubmit_def dune_edited_def dune_def)

lemma getModalContent_example:
  "snd (getModalContent (handleOpenModal (Some (AMovie m)) s)) = MovieForm_element (Some m)"
  by (simp add: getModalContent_def as_Movie_def)

theorem handleSubmit_idempotent_witness:
  "Activity_id (finalData (MovieForm (Some dune) dune_edited) 0)
     \<in> Activity_id ` set (collection movie (handleOpenModal (Some (AMovie dune)) example_app))
   \<and> collection movie (handleOpenModal (Some (AMovie dune)) example_app) = [AMovie dune]
   \<and> collection movie
       (handleSubmit (MovieForm (Some dune) dune_edited) 0
          (handleOpenModal (Some (AMovie dune)) example_app))
       = [AMovie dune_edited]
   \<and> collection movie
       (handleSubmit (MovieForm (Some dune_edited) dune_edited) 1
          (handleOpenModal (Some (AMovie dune_edited))
             (handleSubmit (MovieForm (Some dune) dune_edited) 0
                (handleOpenModal (Some (AMovie dune)) example_app))))
       = [AMovie dune_edited]"
proof -
  let ?s = "handleOpenModal (Some (AMovie dune)) example_app"
  let ?f = "MovieForm (Some dune) dune_edited"
  let ?f' = "MovieForm (Some dune_edited) dune_edited"
  let ?s1 = "handleSubmit ?f 0 ?s"
  have e: "editingItem ?s \<noteq> None" by simp
  have before: "collection movie ?s = [AMovie dune]" by simp
  have once: "collection movie ?s1 = [AMovie dune_edited]"
    unfolding handleSubmit_def finalData_example
    using onSave_edit [OF e, of "AMovie dune_edited"] by simp
  have h1: "element_of ?f = snd (getModalContent ?s)"
    by (simp add: getModalContent_example)
  have h2: "Activity_id (finalData ?f 0)
      \<in> Activity_id ` set (collection (Activity_type (finalData ?f 0)) ?s)"
    unfolding finalData_example by simp
  have h3: "crypto_randomUUID 0
      \<notin> Activity_id ` set (collection (Activity_type (finalData ?f 0)) ?s)"
    unfolding finalData_example by (simp add: crypto_randomUUID_example)
  have h4: "element_of ?f'
      = snd (getModalContent (handleOpenModal (Some (AMovie dune_edited)) ?s1))"
    by (simp add: getModalContent_example)
  have h5: "finalData ?f' 1 = finalData ?f 0"
    by (simp only: finalData_example)
  have h6: "crypto_randomUUID 1
      \<notin> Activity_id ` set (collection (Activity_type (finalData ?f 0)) ?s1)"
    unfolding finalData_example Activity_type.simps once
    by (simp add: crypto_randomUUID_example dune_edited_def dune_def)
  from handleSubmit_idempotent [OF h1 h2 h3 h4 h5 h6]
  have "collection (Activity_type (finalData ?f 0))
      (handleSubmit ?f' 1 (handleOpenModal (Some (AMovie dune_edited)) ?s1))
      = collection (Activity_type (finalData ?f 0)) ?s1"
    by blast
  then have twice: "collection movie
      (handleSubmit ?f' 1 (handleOpenModal (Some (AMovie dune_edited)) ?s1))
      = [AMovie dune_edited]"
    unfolding finalData_example Activity_type.simps once .
  from h2 have h2': "Activity_id (finalData ?f 0) \<in> Activity_id ` set (collection movie ?s)"
    unfolding finalData_example Activity_type.simps .
  from h2' before once twice show ?thesis by blast
qed

subsection \<open>List for display\<close>

lemma comes_first_valid:
  "getTime (date x) = Some tx \<Longrightarrow> getTime (date y) = Some ty' \<Longrightarrow>
     comes_first (sortFn getTime) x y \<longleftrightarrow> ty' \<le> tx"
  by (simp add: comes_first_def sortFn_def)

lemma insert_by_insort:
  assumes "getTime (date x) \<noteq> None" and "\<forall>y \<in> set ys. getTime (date y) \<noteq> None"
  shows "insert_by (sortFn getTime) x ys = insort_key (\<lambda>a. - the (getTime (date a))) x ys"
  using assms by (induction ys) (auto simp: comes_first_valid)

lemma Array_sort_sort_key:
  assumes "\<forall>x \<in> set xs. getTime (date x) \<noteq> None"
  shows "Array_sort (sortFn getTime) xs = sort_key (\<lambda>a. - the (getTime (date a))) xs"
  using assms
proof (induction xs)
  case Nil
  then show ?case by (simp add: Array_sort_def)
next
  case (Cons x xs)
  then have "Array_sort (sortFn getTime) xs = sort_key (\<lambda>a. - the (getTime (date a))) xs"
    by simp
  moreover have "\<forall>y \<in> set (sort_key (\<lambda>a. - the (getTime (date a))) xs). getTime (date y) \<noteq> None"
    using Cons.prems by simp
  ultimately show ?case
    using Cons.prems by (simp add: Array_sort_def insert_by_insort sort_key_def)
qed

lemma insort_key_tagged:
  "insort_key K (C x) (map C ys) = map C (insort_key (\<lambda>a. K (C a)) x ys)"
  by (induction ys) simp_all

lemma sort_key_tagged: "sort_key K (map C xs) = map C (sort_key (\<lambda>a. K (C a)) xs)"
  by (induction xs) (simp_all add: insort_key_tagged)

lemma sortedItems_sort_key:
  assumes "\<forall>a \<in> set (collection (currentView s) s). getTime (Activity_date a) \<noteq> None"
  shows "sortedItems getTime s
    = sort_key (\<lambda>a. - the (getTime (Activity_date a))) (collection (currentView s) s)"
  using assms
  by (cases "currentView s")
    (simp_all add: sortedItems_def collection_def sort_key_tagged Array_sort_sort_key)

lemma sort_key_keys:
  "map K (sort_key K xs) = sort (map K xs)"
  by (rule properties_for_sort [symmetric]) (simp_all add: sorted_sort_key)

text \<open>
  C4. When the date of every item of the category on display is a date, the list for
  display is a permutation of the collection, ordered by date, latest first: an item
  with a later date stands before one with an earlier date, and the sequence of dates
  shown does not depend on the order of the items in the collection.
\<close>

theorem sortedItems_descending:
  assumes "\<forall>a \<in> set (collection (currentView s) s). getTime (Activity_date a) \<noteq> None"
  shows "mset (sortedItems getTime s) = mset (collection (currentView s) s)
    \<and> sorted_wrt (not_earlier getTime) (sortedItems getTime s)
    \<and> (\<forall>i j. i < length (sortedItems getTime s) \<and> j < length (sortedItems getTime s)
          \<and> later getTime (sortedItems getTime s ! i) (sortedItems getTime s ! j)
          \<longrightarrow> i < j)
    \<and> (\<forall>s'. currentView s' = currentView s
          \<and> mset (collection (currentView s') s') = mset (collection (currentView s) s)
          \<longrightarrow> map (\<lambda>a. getTime (Activity_date a)) (sortedItems getTime s')
              = map (\<lambda>a. getTime (Activity_date a)) (sortedItems getTime s))"
proof (intro conjI allI impI)
  let ?K = "\<lambda>a. - the (getTime (Activity_date a))"
  let ?xs = "collection (currentView s) s"
  let ?ys = "sortedItems getTime s"
  have eq: "?ys = sort_key ?K ?xs" using assms by (rule sortedItems_sort_key)
  show perm: "mset ?ys = mset ?xs" by (simp add: eq)
  then have valid: "\<forall>a \<in> set ?ys. getTime (Activity_date a) \<noteq> None"
    using assms by (metis mset_eq_setD)
  have "sorted (map ?K ?ys)" by (simp add: eq sorted_sort_key)
  then have "sorted_wrt (\<lambda>a b. ?K a \<le> ?K b) ?ys" by (simp add: sorted_wrt_map)
  then show sorted: "sorted_wrt (not_earlier getTime) ?ys"
  proof (rule sorted_wrt_mono_rel [rotated])
    fix a b assume "a \<in> set ?ys" "b \<in> set ?ys" "?K a \<le> ?K b"
    moreover from this valid obtain ta tb
      where "getTime (Activity_date a) = Some ta" "getTime (Activity_date b) = Some tb"
      by blast
    ultimately show "not_earlier getTime a b"
      by (simp add: not_earlier_def)
  qed
  show "i < j"
    if h: "i < length ?ys \<and> j < length ?ys \<and> later getTime (?ys ! i) (?ys ! j)" for i j
  proof (rule ccontr)
    assume "\<not> i < j"
    then consider "j < i" | "i = j" by linarith
    then show False
    proof cases
      case 1
      then have "not_earlier getTime (?ys ! j) (?ys ! i)"
        using sorted h by (simp add: sorted_wrt_iff_nth_less)
      with h show False
        by (auto simp: not_earlier_def later_def split: option.splits)
    next
      case 2
      with h show False by (auto simp: later_def split: option.splits)
    qed
  qed
  show "map (\<lambda>a. getTime (Activity_date a)) (sortedItems getTime s')
      = map (\<lambda>a. getTime (Activity_date a)) ?ys"
    if h: "currentView s' = currentView s
          \<and> mset (collection (currentView s') s') = mset ?xs" for s'
  proof -
    let ?xs' = "collection (currentView s') s'"
    have valid': "\<forall>a \<in> set ?xs'. getTime (Activity_date a) \<noteq> None"
      using assms h by (metis mset_eq_setD)
    then have eq': "sortedItems getTime s' = sort_key ?K ?xs'" by (rule sortedItems_sort_key)
    from h have "mset ?xs' = mset ?xs" by blast
    then have "image_mset ?K (mset ?xs') = image_mset ?K (mset ?xs)" by (rule arg_cong)
    then have "mset (map ?K ?xs') = mset (map ?K ?xs)" by (simp only: mset_map)
    then have "sort (map ?K ?xs') = sort (map ?K ?xs)"
      by (intro properties_for_sort) simp_all
    then have keys: "map ?K (sortedItems getTime s') = map ?K ?ys"
      by (simp only: eq eq' sort_key_keys)
    have conv: "map (\<lambda>a. getTime (Activity_date a)) zs = map (\<lambda>k. Some (- k)) (map ?K zs)"
      if "\<forall>a \<in> set zs. getTime (Activity_date a) \<noteq> None" for zs
      using that by (induction zs) auto
    have v': "\<forall>a \<in> set (sortedItems getTime s'). getTime (Activity_date a) \<noteq> None"
      using valid' by (simp add: eq')
    show ?thesis
      unfolding conv [OF v'] conv [OF valid] keys ..
  qed
qed

lemma example_dates:
  "Date_getTime (date dune) = Some 1709251200000"
  "Date_getTime (date alien) = Some 1718409600000"
  by (simp_all add: dune_def alien_def Date_getTime_def is_digit_def nat_of_digits_def
      digit_val_def days_in_month_def days_from_civil_def leap_year_def)

theorem sortedItems_descending_witness:
  "Date_getTime (date dune) = Some 1709251200000
   \<and> Date_getTime (date alien) = Some 1718409600000
   \<and> sortedItems Date_getTime (example_app\<lparr>movies := [dune, alien]\<rparr>)
       = [AMovie alien, AMovie dune]
   \<and> mset (sortedItems Date_getTime (example_app\<lparr>movies := [dune, alien]\<rparr>))
       = mset [AMovie dune, AMovie alien]
   \<and> sorted_wrt (not_earlier Date_getTime)
       (sortedItems Date_getTime (example_app\<lparr>movies := [dune, alien]\<rparr>))
   \<and> later Date_getTime
       (sortedItems Date_getTime (example_app\<lparr>movies := [dune, alien]\<rparr>) ! 0)
       (sortedItems Date_getTime (example_app\<lparr>movies := [dune, alien]\<rparr>) ! 1)
   \<and> map (\<lambda>a. Date_getTime (Activity_date a))
       (sortedItems Date_getTime (example_app\<lparr>movies := [alien, dune]\<rparr>))
       = map (\<lambda>a. Date_getTime (Activity_date a))
           (sortedItems Date_getTime (example_app\<lparr>movies := [dune, alien]\<rparr>))"
proof -
  let ?s = "example_app\<lparr>movies := [dune, alien]\<rparr>"
  let ?s' = "example_app\<lparr>movies := [alien, dune]\<rparr>"
  have col: "collection (currentView ?s) ?s = [AMovie dune, AMovie alien]"
    by (simp add: collection_def)
  have col': "collection (currentView ?s') ?s' = [AMovie alien, AMovie dune]"
    by (simp add: collection_def)
  have "\<forall>a \<in> set (collection (currentView ?s) ?s). Date_getTime (Activity_date a) \<noteq> None"
    unfolding col by (simp add: example_dates)
  note h = sortedItems_descending [OF this]
  from h have perm: "mset (sortedItems Date_getTime ?s) = mset (collection (currentView ?s) ?s)"
    and sorted: "sorted_wrt (not_earlier Date_getTime) (sortedItems Date_getTime ?s)"
    by blast+
  have "currentView ?s' = currentView ?s
      \<and> mset (collection (currentView ?s') ?s') = mset (collection (currentView ?s) ?s)"
    unfolding col col' by simp
  with h have same: "map (\<lambda>a. Date_getTime (Activity_date a)) (sortedItems Date_getTime ?s')
      = map (\<lambda>a. Date_getTime (Activity_date a)) (sortedItems Date_getTime ?s)"
    by blast
  have list: "sortedItems Date_getTime ?s = [AMovie alien, AMovie dune]"
    by (simp add: sortedItems_def Array_sort_def comes_first_def sortFn_def example_dates)
  have "later Date_getTime (sortedItems Date_getTime ?s ! 0) (sortedItems Date_getTime ?s ! 1)"
    unfolding list by (simp add: later_def example_dates)
  with perm sorted same list show ?thesis
    unfolding col using example_dates by blast
qed

section \<open>The debounced search\<close>

lemma change_pending:
  assumes "searchQuery f = q" and "handler f = Some (t + 500, q)"
    and "fst c < t + 500" and "snd c \<noteq> q"
  shows "searchQuery (change c f) = snd c \<and> handler (change c f) = Some (fst c + 500, snd c)
    \<and> debouncedValue (change c f) = debouncedValue f \<and> searched (change c f) = searched f"
  using assms by (simp add: change_def advance_def setSearchQuery_def)

lemma type_in_pending:
  assumes "searchQuery f = q" and "handler f = Some (t + 500, q)" and "rapid t q cs"
  shows "searchQuery (type_in cs f) = snd (last ((t, q) # cs))
    \<and> handler (type_in cs f)
        = Some (fst (last ((t, q) # cs)) + 500, snd (last ((t, q) # cs)))
    \<and> debouncedValue (type_in cs f) = debouncedValue f
    \<and> searched (type_in cs f) = searched f"
  using assms
proof (induction cs arbitrary: f t q)
  case Nil
  then show ?case by (simp add: type_in_def)
next
  case (Cons c cs)
  from Cons.prems have c: "fst c < t + 500" "snd c \<noteq> q" "rapid (fst c) (snd c) cs"
    by simp_all
  note step = change_pending [OF Cons.prems(1,2) c(1,2)]
  from step have "searchQuery (change c f) = snd c"
    and "handler (change c f) = Some (fst c + 500, snd c)"
    by blast+
  from Cons.IH [OF this c(3)] step
  have "searchQuery (type_in cs (change c f)) = snd (last ((fst c, snd c) # cs))
    \<and> handler (type_in cs (change c f))
        = Some (fst (last ((fst c, snd c) # cs)) + 500, snd (last ((fst c, snd c) # cs)))
    \<and> debouncedValue (type_in cs (change c f)) = debouncedValue f
    \<and> searched (type_in cs (change c f)) = searched f"
    by simp
  moreover have "type_in (c # cs) f = type_in cs (change c f)"
    by (simp add: type_in_def)
  moreover have "last ((t, q) # c # cs) = last ((fst c, snd c) # cs)"
    by simp
  ultimately show ?case by (simp only:)
qed

lemma first_change:
  assumes "settled f" and "q \<noteq> searchQuery f"
  shows "searchQuery (change (t, q) f) = q \<and> handler (change (t, q) f) = Some (t + 500, q)
    \<and> debouncedValue (change (t, q) f) = debouncedValue f
    \<and> searched (change (t, q) f) = searched f"
  using assms
  by (auto simp: change_def advance_def setSearchQuery_def setDebouncedValue_def settled_def
      split: option.splits)

lemma advance_due:
  assumes "handler f = Some (due, q)" and "due \<le> T"
  shows "searched (advance T f)
      = searched f @ (if q \<noteq> [] \<and> q \<noteq> debouncedValue f then [q] else [])"
  using assms by (simp add: advance_def setDebouncedValue_def search_effect_def)

text \<open>
  C8, as the code has it. The form is at rest; the user changes the text, and changes it
  again and again, each time less than the delay after the change before. Every change
  replaces the pending timeout by one for the new text, and no search is issued while
  the changes go on. Once the last text has stood for the delay, one search is issued,
  for that text, if it is not empty and is not the text that was debounced before;
  otherwise none is.
\<close>

theorem debounced_search:
  assumes "settled f" and "clock f \<le> t" and "q \<noteq> searchQuery f" and "rapid t q cs"
    and "fst (last ((t, q) # cs)) + 500 \<le> T"
  shows "handler (type_in ((t, q) # cs) f)
      = Some (fst (last ((t, q) # cs)) + 500, snd (last ((t, q) # cs)))
    \<and> searched (type_in ((t, q) # cs) f) = searched f
    \<and> searched (advance T (type_in ((t, q) # cs) f))
        = searched f
          @ (if snd (last ((t, q) # cs)) \<noteq> [] \<and> snd (last ((t, q) # cs)) \<noteq> debouncedValue f
             then [snd (last ((t, q) # cs))] else [])"
proof -
  let ?g = "change (t, q) f"
  let ?h = "type_in ((t, q) # cs) f"
  note first = first_change [OF assms(1,3), of t]
  from first have "searchQuery ?g = q" and "handler ?g = Some (t + 500, q)"
    by blast+
  note rest = type_in_pending [OF this assms(4)]
  have h: "?h = type_in cs ?g" by (simp add: type_in_def)
  from rest first have pend: "handler ?h
      = Some (fst (last ((t, q) # cs)) + 500, snd (last ((t, q) # cs)))"
    and deb: "debouncedValue ?h = debouncedValue f"
    and quiet: "searched ?h = searched f"
    unfolding h by simp_all
  from advance_due [OF pend assms(5)] deb quiet
  have "searched (advance T ?h)
      = searched f
        @ (if snd (last ((t, q) # cs)) \<noteq> [] \<and> snd (last ((t, q) # cs)) \<noteq> debouncedValue f
           then [snd (last ((t, q) # cs))] else [])"
    by simp
  with pend quiet show ?thesis by blast
qed

lemma mount_settled: "settled (mount t)"
  by (simp add: settled_def mount_def)

theorem debounced_search_witness:
  "settled (mount 0) \<and> rapid 10 ''d'' [(100, ''du''), (200, ''dun''), (350, ''dune'')]
   \<and> searched (type_in [(10, ''d''), (100, ''du''), (200, ''dun''), (350, ''dune'')] (mount 0))
       = []
   \<and> searched
       (advance 850
          (type_in [(10, ''d''), (100, ''du''), (200, ''dun''), (350, ''dune'')] (mount 0)))
       = [''dune'']"
proof -
  let ?cs = "[(100, ''du''), (200, ''dun''), (350, ''dune'')] :: (nat \<times> string) list"
  have r: "rapid 10 ''d'' ?cs" by simp
  have 1: "clock (mount 0) \<le> 10" "''d'' \<noteq> searchQuery (mount 0)"
    "fst (last ((10, ''d'') # ?cs)) + 500 \<le> (850::nat)"
    by (simp_all add: mount_def)
  from debounced_search [OF mount_settled 1(1,2) r 1(3)]
  have "searched (type_in ((10, ''d'') # ?cs) (mount 0)) = searched (mount 0)"
    and "searched (advance 850 (type_in ((10, ''d'') # ?cs) (mount 0)))
      = searched (mount 0)
        @ (if snd (last ((10, ''d'') # ?cs)) \<noteq> []
              \<and> snd (last ((10, ''d'') # ?cs)) \<noteq> debouncedValue (mount 0)
           then [snd (last ((10, ''d'') # ?cs))] else [])"
    by blast+
  then have "searched (type_in ((10, ''d'') # ?cs) (mount 0)) = []"
    and "searched (advance 850 (type_in ((10, ''d'') # ?cs) (mount 0))) = [''dune'']"
    by (simp_all add: mount_def)
  with mount_settled r show ?thesis by blast
qed

text \<open>
  The claim C8 as stated fails: the user types a letter and erases it within the delay.
  The final query is the empty text, which is also the text debounced before, and no
  search is issued at all.
\<close>

theorem debounced_search_counterexample:
  "settled (mount 0) \<and> rapid 10 ''d'' [(100, [])]
   \<and> searched (advance 1000 (type_in [(10, ''d''), (100, [])] (mount 0))) = []
   \<and> length (searched (advance 1000 (type_in [(10, ''d''), (100, [])] (mount 0)))) \<noteq> 1"
  by (simp add: settled_def type_in_def change_def advance_def setSearchQuery_def
      setDebouncedValue_def search_effect_def mount_def)

end
